theory Spec2Isabelle
  imports Complex_Main "HOL-Library.Word"
begin

section \<open>JavaScript numbers\<close>

text \<open>
  The embedding follows \<^verbatim>\<open>class ImageGenerator\<close>. A JavaScript number is a finite value,
  \<^verbatim>\<open>Infinity\<close>, \<^verbatim>\<open>-Infinity\<close> or \<^verbatim>\<open>NaN\<close>. The finite values are modelled by the reals
  they stand for and the arithmetic on them is exact: the rounding of binary floating
  point to 53 bits is not part of the model, and zeros carry no sign. What the model does
  keep is where the arithmetic leaves the finite numbers: a result whose magnitude reaches
  \<open>2 ^ 1024 - 2 ^ 970\<close> is infinite, a division by zero is infinite or \<^verbatim>\<open>NaN\<close>, and the
  special values propagate through every operator, comparison and \<^verbatim>\<open>Math\<close> function as
  IEEE 754 and ECMAScript prescribe.
\<close>

datatype number = Fin real | PosInf | NegInf | NaN

definition overflow :: real where
  "overflow = 2 ^ 1024 - 2 ^ 970"

definition num :: "real \<Rightarrow> number" where
  \<comment> \<open>the number an exact result becomes\<close>
  "num x = (if overflow \<le> x then PosInf else if x \<le> - overflow then NegInf else Fin x)"

definition signedInf :: "real \<Rightarrow> number" where
  \<comment> \<open>the infinity with the sign of \<open>x\<close>; \<^verbatim>\<open>NaN\<close> when there is no sign\<close>
  "signedInf x = (if 0 < x then PosInf else if x < 0 then NegInf else NaN)"

fun signum :: "number \<Rightarrow> real" where
  "signum (Fin x) = sgn x"
| "signum PosInf = 1"
| "signum NegInf = - 1"
| "signum NaN = 0"

instantiation number :: "{times, inverse, minus, ord}"
begin

fun times_number :: "number \<Rightarrow> number \<Rightarrow> number" where
  "Fin x * Fin y = num (x * y)"
| "NaN * b = NaN"
| "a * NaN = NaN"
| "a * b = signedInf (signum a * signum b)"

fun divide_number :: "number \<Rightarrow> number \<Rightarrow> number" where
  "divide_number (Fin x) (Fin y) = (if y = 0 then signedInf x else num (x / y))"
| "divide_number NaN b = NaN"
| "divide_number a NaN = NaN"
| "divide_number (Fin x) b = Fin 0"
| "divide_number a (Fin y) = signedInf (signum a * (if y < 0 then - 1 else 1))"
| "divide_number a b = NaN"

definition inverse_number :: "number \<Rightarrow> number" where
  "inverse_number a = divide (Fin 1) a"

fun minus_number :: "number \<Rightarrow> number \<Rightarrow> number" where
  "Fin x - Fin y = num (x - y)"
| "NaN - b = NaN"
| "a - NaN = NaN"
| "PosInf - PosInf = NaN"
| "NegInf - NegInf = NaN"
| "PosInf - b = PosInf"
| "NegInf - b = NegInf"
| "Fin x - PosInf = NegInf"
| "Fin x - NegInf = PosInf"

fun less_number :: "number \<Rightarrow> number \<Rightarrow> bool" where
  "Fin x < Fin y \<longleftrightarrow> x < y"
| "NaN < b \<longleftrightarrow> False"
| "a < NaN \<longleftrightarrow> False"
| "PosInf < b \<longleftrightarrow> False"
| "a < NegInf \<longleftrightarrow> False"
| "NegInf < b \<longleftrightarrow> True"
| "Fin x < PosInf \<longleftrightarrow> True"

definition less_eq_number :: "number \<Rightarrow> number \<Rightarrow> bool" where
  "a \<le> b \<longleftrightarrow> a < b \<or> (a = b \<and> a \<noteq> NaN)"

instance ..

end

fun Math_sqrt :: "number \<Rightarrow> number" where
  "Math_sqrt (Fin x) = (if x < 0 then NaN else Fin (sqrt x))"
| "Math_sqrt PosInf = PosInf"
| "Math_sqrt NegInf = NaN"
| "Math_sqrt NaN = NaN"

text \<open>
  \<^verbatim>\<open>Math.round\<close> rounds to the nearest integer, halves upwards: on a finite number it is
  \<^const>\<open>round\<close>, \<open>round x = \<lfloor>x + 1/2\<rfloor>\<close>.
\<close>

fun Math_round :: "number \<Rightarrow> number" where
  "Math_round (Fin x) = Fin (of_int (round x))"
| "Math_round a = a"

fun Math_abs :: "number \<Rightarrow> number" where
  "Math_abs (Fin x) = Fin \<bar>x\<bar>"
| "Math_abs PosInf = PosInf"
| "Math_abs NegInf = PosInf"
| "Math_abs NaN = NaN"

fun Math_max :: "number \<Rightarrow> number \<Rightarrow> number" where
  "Math_max NaN b = NaN"
| "Math_max a NaN = NaN"
| "Math_max a b = (if a < b then b else a)"

fun Math_min :: "number \<Rightarrow> number \<Rightarrow> number" where
  "Math_min NaN b = NaN"
| "Math_min a NaN = NaN"
| "Math_min a b = (if b < a then b else a)"

section \<open>The image generator: strings and failures\<close>

type_synonym buffer = "8 word list"

datatype failure =
    InvalidTarget          \<comment> \<open>"Target size must be greater than 0"\<close>
  | UnsupportedFormat      \<comment> \<open>"Unsupported format: ..."\<close>
  | JimpUnavailable        \<comment> \<open>"Jimp module is not available. ..."\<close>
  | DimensionsNotPositive  \<comment> \<open>"Image dimensions must be positive numbers"\<close>
  | DimensionsTooLarge     \<comment> \<open>"Image dimensions too large: ..."\<close>

text \<open>
  A format is a string of code units below 256. \<^verbatim>\<open>String.prototype.toLowerCase\<close> maps
  \<^verbatim>\<open>A..Z\<close> and the Latin-1 capitals (U+00C0 to U+00DE, without the multiplication sign
  U+00D7) to the code unit 32 above and leaves every other such code unit alone.
\<close>

definition lowerChar :: "char \<Rightarrow> char" where
  "lowerChar c =
     (let n = (of_char c :: nat)
      in if (65 \<le> n \<and> n \<le> 90) \<or> (192 \<le> n \<and> n \<le> 222 \<and> n \<noteq> 215)
         then char_of (n + 32) else c)"

definition toLowerCase :: "string \<Rightarrow> string" where
  "toLowerCase s = map lowerChar s"

definition supportedFormats :: "string list" where
  "supportedFormats = [''jpg'', ''jpeg'', ''png'']"

definition isFormatSupported :: "string \<Rightarrow> bool" where
  "isFormatSupported format \<longleftrightarrow> toLowerCase format \<in> set supportedFormats"

definition isJpeg :: "string \<Rightarrow> bool" where
  \<comment> \<open>\<^verbatim>\<open>format.toLowerCase() === "jpg" || format.toLowerCase() === "jpeg"\<close>\<close>
  "isJpeg format = (toLowerCase format = ''jpg'' \<or> toLowerCase format = ''jpeg'')"

definition maxDimension :: number where
  "maxDimension = Fin 32767"

text \<open>
  The comparisons of \<^verbatim>\<open>validateDimensions\<close> are all false on \<^verbatim>\<open>NaN\<close>, which therefore
  passes.
\<close>

definition validateDimensions :: "number \<Rightarrow> number \<Rightarrow> failure + unit" where
  "validateDimensions w h =
     (if w \<le> Fin 0 \<or> h \<le> Fin 0 then Inl DimensionsNotPositive
      else if w > maxDimension \<or> h > maxDimension then Inl DimensionsTooLarge
      else Inr ())"

definition bytesToMB :: "number \<Rightarrow> number" where
  "bytesToMB bytes = bytes / (Fin 1024 * Fin 1024)"

definition mbToBytes :: "number \<Rightarrow> number" where
  "mbToBytes mb = mb * Fin 1024 * Fin 1024"

section \<open>The dimension estimator\<close>

text \<open>
  \<^verbatim>\<open>compressionFactors[key]\<close> is a property read on an object literal: it finds the
  three own properties and, through the prototype chain, the properties of
  \<^verbatim>\<open>Object.prototype\<close>, whose values are functions or objects, not numbers.
\<close>

datatype property = Number real | Inherited | Undefined

definition objectPrototypeKeys :: "string list" where
  "objectPrototypeKeys =
     [''constructor'', ''__defineGetter__'', ''__defineSetter__'', ''hasOwnProperty'',
      ''__lookupGetter__'', ''__lookupSetter__'', ''isPrototypeOf'', ''propertyIsEnumerable'',
      ''toString'', ''valueOf'', ''__proto__'', ''toLocaleString'']"

definition compressionFactors :: "string \<Rightarrow> property" where
  "compressionFactors key =
     (if key = ''jpg'' then Number 1.5
      else if key = ''jpeg'' then Number 1.5
      else if key = ''png'' then Number 1.2
      else if key \<in> set objectPrototypeKeys then Inherited
      else Undefined)"

text \<open>
  \<^verbatim>\<open>compressionFactors[...] || 1.5\<close>, as the operand of the division that follows: a
  number other than 0 is itself, 0 and \<^verbatim>\<open>undefined\<close> are falsy and give 1.5, and an
  inherited function or object is truthy, is kept, and converts to \<^verbatim>\<open>NaN\<close>.
\<close>

definition factorOr :: "property \<Rightarrow> real \<Rightarrow> number" where
  "factorOr p d = (case p of Number x \<Rightarrow> if x = 0 then Fin d else Fin x
                           | Inherited \<Rightarrow> NaN
                           | Undefined \<Rightarrow> Fin d)"

text \<open>A pair of dimensions as the source returns it, \<^verbatim>\<open>{ width, height }\<close>.\<close>

datatype dimensions = Dimensions number number

definition estimateInitialDimensions :: "number \<Rightarrow> string \<Rightarrow> dimensions" where
  "estimateInitialDimensions targetSizeBytes format =
     (let factor = factorOr (compressionFactors (toLowerCase format)) 1.5;
          estimatedPixels = targetSizeBytes / factor;
          aspectRatio = Fin 16 / Fin 9;
          width0 = Math_sqrt (estimatedPixels * aspectRatio);
          height0 = estimatedPixels / width0;
          (width1, height1) =
            (if width0 > maxDimension \<or> height0 > maxDimension
             then
               let (w, h) =
                     (if width0 > height0
                      then (maxDimension, maxDimension / aspectRatio)
                      else (maxDimension * aspectRatio, maxDimension))
               in (Math_min w maxDimension, Math_min h maxDimension)
             else (width0, height0))
      in Dimensions (Math_max (Math_round width1) (Fin 100))
                    (Math_max (Math_round height1) (Fin 56)))"

section \<open>Adjustment and tolerance\<close>

definition adjustDimensions :: "number \<Rightarrow> number \<Rightarrow> number \<Rightarrow> number \<Rightarrow> dimensions" where
  "adjustDimensions currentSize targetSize currentWidth currentHeight =
     (let sizeRatio = targetSize / currentSize;
          scaleFactor = Math_sqrt sizeRatio;
          newWidth = Math_round (currentWidth * scaleFactor);
          newHeight = Math_round (currentHeight * scaleFactor)
      in Dimensions (Math_max newWidth (Fin 50)) (Math_max newHeight (Fin 50)))"

definition isWithinTolerance :: "number \<Rightarrow> number \<Rightarrow> number \<Rightarrow> bool" where
  "isWithinTolerance actualSize targetSize tolerance =
     (let difference = Math_abs (actualSize - targetSize);
          allowedDifference = targetSize * tolerance
      in difference < allowedDifference)"

section \<open>Rendering\<close>

text \<open>
  The argument of \<^verbatim>\<open>generateImageWithText\<close>. The encoder is the Jimp library, outside
  this repository: it is a parameter, a function from the request to the encoded buffer,
  and \<open>None\<close> when \<^verbatim>\<open>require("jimp")\<close> failed.
\<close>

record image_config =
  img_width :: number
  img_height :: number
  img_format :: string
  img_sizeMB :: real
  img_backgroundColor :: string
  img_textColor :: string
  img_quality :: int

type_synonym jimp = "image_config \<Rightarrow> buffer"

definition generateImageWithText :: "jimp option \<Rightarrow> image_config \<Rightarrow> failure + buffer" where
  "generateImageWithText Jimp config =
     (case Jimp of
        None \<Rightarrow> Inl JimpUnavailable
      | Some encode \<Rightarrow>
          (case validateDimensions (img_width config) (img_height config) of
             Inl e \<Rightarrow> Inl e
           | Inr _ \<Rightarrow>
               if \<not> isFormatSupported (img_format config) then Inl UnsupportedFormat
               else Inr (encode config)))"

definition getImageSize :: "buffer \<Rightarrow> number" where
  "getImageSize buffer = Fin (real (length buffer))"

section \<open>The convergence loop\<close>

text \<open>
  The configuration of a call. \<open>targetSizeMB\<close> and \<open>tolerance\<close> are finite numbers; the
  four optional fields are \<open>None\<close> when the caller leaves them out.
\<close>

record config =
  targetSizeMB :: real
  format :: string
  backgroundColor :: "string option"
  textColor :: "string option"
  maxIterations :: "int option"
  tolerance :: "real option"

text \<open>The destructuring defaults of \<^verbatim>\<open>generateImageWithTargetSize\<close>.\<close>

definition backgroundColorOf :: "config \<Rightarrow> string" where
  "backgroundColorOf c = (case backgroundColor c of None \<Rightarrow> ''#ffffff'' | Some v \<Rightarrow> v)"

definition textColorOf :: "config \<Rightarrow> string" where
  "textColorOf c = (case textColor c of None \<Rightarrow> ''#000000'' | Some v \<Rightarrow> v)"

definition maxIterationsOf :: "config \<Rightarrow> int" where
  "maxIterationsOf c = (case maxIterations c of None \<Rightarrow> 20 | Some v \<Rightarrow> v)"

definition toleranceOf :: "config \<Rightarrow> number" where
  "toleranceOf c = (case tolerance c of None \<Rightarrow> Fin 0.05 | Some v \<Rightarrow> Fin v)"

definition targetSizeBytesOf :: "config \<Rightarrow> number" where
  "targetSizeBytesOf c = mbToBytes (Fin (targetSizeMB c))"

text \<open>
  The local variables of the loop. \<open>buffer\<close> and \<open>actualSize\<close> are \<^verbatim>\<open>undefined\<close>
  (\<open>None\<close>) until the first render returns; \<open>actualSize\<close> is the length of the buffer.
\<close>

record loop_state =
  width :: number
  height :: number
  quality :: int
  iteration :: nat
  buffer :: "buffer option"
  actualSize :: "nat option"

definition seedQuality :: "number \<Rightarrow> number \<Rightarrow> number \<Rightarrow> int" where
  \<comment> \<open>lines 383 to 397\<close>
  "seedQuality targetSizeBytes w h =
     (let pixelCount = w * h;
          bytesPerPixel = targetSizeBytes / pixelCount
      in if bytesPerPixel > Fin 2 then 100
         else if bytesPerPixel > Fin 1.5 then 95
         else if bytesPerPixel > Fin 1 then 90
         else if bytesPerPixel > Fin 0.5 then 80
         else 70)"

definition ceilingCheck :: "config \<Rightarrow> loop_state \<Rightarrow> loop_state" where
  \<comment> \<open>lines 365 to 399\<close>
  "ceilingCheck c s =
     (if width s > maxDimension \<or> height s > maxDimension then
        let aspectRatio = width s / height s;
            (w, h) =
              (if width s > height s
               then (maxDimension, Math_round (maxDimension / aspectRatio))
               else (Math_round (maxDimension * aspectRatio), maxDimension));
            w' = Math_min w maxDimension;
            h' = Math_min h maxDimension
        in s\<lparr>width := w', height := h',
              quality := (if isJpeg (format c) then seedQuality (targetSizeBytesOf c) w' h'
                          else quality s)\<rparr>
      else s)"

definition renderRequest :: "config \<Rightarrow> loop_state \<Rightarrow> image_config" where
  \<comment> \<open>the object literal of lines 402 to 410\<close>
  "renderRequest c s =
     \<lparr>img_width = width s, img_height = height s, img_format = format c,
      img_sizeMB = targetSizeMB c, img_backgroundColor = backgroundColorOf c,
      img_textColor = textColorOf c, img_quality = quality s\<rparr>"

definition atCeiling :: "config \<Rightarrow> loop_state \<Rightarrow> bool" where
  \<comment> \<open>the condition of lines 420 to 423\<close>
  "atCeiling c s =
     ((width s \<ge> maxDimension \<or> height s \<ge> maxDimension) \<and> isJpeg (format c))"

definition adjustQuality :: "number \<Rightarrow> number \<Rightarrow> int \<Rightarrow> int" where
  \<comment> \<open>lines 424 to 430\<close>
  "adjustQuality actual targetSizeBytes q =
     (if actual < targetSizeBytes then min 100 (q + 5) else max 10 (q - 5))"

text \<open>
  One pass through the body of the \<^verbatim>\<open>while\<close> loop, lines 364 to 443: the state it
  leaves, and whether the loop goes on (\<open>Continue\<close>), is left by \<^verbatim>\<open>break\<close>
  (\<open>Break\<close>), or is abandoned by an exception of the renderer (\<open>Throw\<close>).
\<close>

datatype step = Continue loop_state | Break loop_state | Throw failure

definition iterate :: "jimp option \<Rightarrow> config \<Rightarrow> loop_state \<Rightarrow> step" where
  "iterate Jimp c s =
     (let s1 = ceilingCheck c s
      in case generateImageWithText Jimp (renderRequest c s1) of
           Inl e \<Rightarrow> Throw e
         | Inr buf \<Rightarrow>
             let actual = getImageSize buf;
                 s2 = s1\<lparr>buffer := Some buf, actualSize := Some (length buf)\<rparr>
             in if isWithinTolerance actual (targetSizeBytesOf c) (toleranceOf c)
                then Break s2
                else if atCeiling c s2
                then Continue (s2\<lparr>quality := adjustQuality actual (targetSizeBytesOf c) (quality s2),
                                   iteration := iteration s2 + 1\<rparr>)
                else
                  (case adjustDimensions actual (targetSizeBytesOf c) (width s2) (height s2) of
                     Dimensions w h \<Rightarrow>
                       Continue (s2\<lparr>width := w, height := h, iteration := iteration s2 + 1\<rparr>)))"

text \<open>
  The \<^verbatim>\<open>while\<close> loop. \<open>calls\<close> collects the requests made to
  \<^verbatim>\<open>generateImageWithText\<close>, in order; the result is the state at the exit of the loop,
  or the failure that ended it.
\<close>

function loop ::
  "jimp option \<Rightarrow> config \<Rightarrow> image_config list \<Rightarrow> loop_state
     \<Rightarrow> image_config list \<times> (failure + loop_state)" where
  "loop Jimp c calls s =
     (if int (iteration s) < maxIterationsOf c then
        (case iterate Jimp c s of
           Throw e \<Rightarrow> (calls @ [renderRequest c (ceilingCheck c s)], Inl e)
         | Break s' \<Rightarrow> (calls @ [renderRequest c (ceilingCheck c s)], Inr s')
         | Continue s' \<Rightarrow> loop Jimp c (calls @ [renderRequest c (ceilingCheck c s)]) s')
      else (calls, Inr s))"
  by pat_completeness auto
termination
  by (relation "measure (\<lambda>(Jimp, c, calls, s). nat (maxIterationsOf c - int (iteration s)))")
     (auto simp: iterate_def ceilingCheck_def Let_def
           split: sum.splits if_splits dimensions.splits prod.splits)

text \<open>
  The object returned. \<open>out_actualSizeMB\<close> is \<^verbatim>\<open>bytesToMB(actualSize)\<close>, which is
  \<^verbatim>\<open>NaN\<close> while \<open>actualSize\<close> is \<^verbatim>\<open>undefined\<close>.
\<close>

record outcome =
  out_buffer :: "buffer option"
  out_width :: number
  out_height :: number
  out_actualSizeBytes :: "nat option"
  out_actualSizeMB :: number
  out_targetSizeMB :: real
  out_iterations :: nat
  out_format :: string
  out_quality :: "int option"

text \<open>
  What a call does: the requests made to the renderer, whether \<^verbatim>\<open>console.warn\<close> was
  called, and the object returned or the failure. The method is \<^verbatim>\<open>async\<close>: a failure is
  the rejection of its promise, an outcome the value it resolves to.
\<close>

record run =
  calls :: "image_config list"
  warned :: bool
  result :: "failure + outcome"

definition generateImageWithTargetSize :: "jimp option \<Rightarrow> config \<Rightarrow> run" where
  "generateImageWithTargetSize Jimp c =
     (if targetSizeMB c \<le> 0 then \<lparr>calls = [], warned = False, result = Inl InvalidTarget\<rparr>
      else if \<not> isFormatSupported (format c)
      then \<lparr>calls = [], warned = False, result = Inl UnsupportedFormat\<rparr>
      else
        (case estimateInitialDimensions (targetSizeBytesOf c) (format c) of
           Dimensions w h \<Rightarrow>
             (case loop Jimp c []
                     \<lparr>width = w, height = h, quality = 90, iteration = 0,
                      buffer = None, actualSize = None\<rparr> of
                (cs, Inl e) \<Rightarrow> \<lparr>calls = cs, warned = False, result = Inl e\<rparr>
              | (cs, Inr s) \<Rightarrow>
                  \<lparr>calls = cs,
                   warned = (int (iteration s) \<ge> maxIterationsOf c),
                   result = Inr
                     \<lparr>out_buffer = buffer s,
                      out_width = width s,
                      out_height = height s,
                      out_actualSizeBytes = actualSize s,
                      out_actualSizeMB =
                        (case actualSize s of None \<Rightarrow> NaN
                         | Some n \<Rightarrow> bytesToMB (Fin (real n))),
                      out_targetSizeMB = targetSizeMB c,
                      out_iterations = iteration s + 1,
                      out_format = format c,
                      out_quality = (if isJpeg (format c) then Some (quality s) else None)\<rparr>\<rparr>)))"

section \<open>Predicates, reference definitions and example inputs\<close>

text \<open>
  The states the loop is in at the top of an iteration: the state built from the
  estimate, and every state an iteration within the budget leaves behind when the loop goes
  on.
\<close>

inductive reachable :: "jimp option \<Rightarrow> config \<Rightarrow> loop_state \<Rightarrow> bool"
  for Jimp :: "jimp option" and c :: config where
    start:
      "0 < targetSizeMB c \<Longrightarrow> isFormatSupported (format c) \<Longrightarrow>
       estimateInitialDimensions (targetSizeBytesOf c) (format c) = Dimensions w h \<Longrightarrow>
       reachable Jimp c \<lparr>width = w, height = h, quality = 90, iteration = 0,
                         buffer = None, actualSize = None\<rparr>"
  | continue:
      "reachable Jimp c s \<Longrightarrow> int (iteration s) < maxIterationsOf c \<Longrightarrow>
       iterate Jimp c s = Continue s' \<Longrightarrow> reachable Jimp c s'"

text \<open>Width and height between the floor of 50 and the ceiling, as numbers.\<close>

definition inRange :: "loop_state \<Rightarrow> bool" where
  "inRange s \<longleftrightarrow>
     Fin 50 \<le> width s \<and> width s \<le> maxDimension \<and> Fin 50 \<le> height s \<and> height s \<le> maxDimension"

definition requestInRange :: "image_config \<Rightarrow> bool" where
  "requestInRange q \<longleftrightarrow>
     Fin 50 \<le> img_width q \<and> img_width q \<le> Fin 32767 \<and>
     Fin 50 \<le> img_height q \<and> img_height q \<le> Fin 32767"

text \<open>Width and height that are integers in that range.\<close>

definition intRange :: "loop_state \<Rightarrow> bool" where
  "intRange s \<longleftrightarrow>
     (\<exists>w h :: int. 50 \<le> w \<and> w \<le> 32767 \<and> 50 \<le> h \<and> h \<le> 32767 \<and>
        width s = Fin (real_of_int w) \<and> height s = Fin (real_of_int h))"

text \<open>
  At the top of an iteration of a run whose renders are not empty the dimensions are
  those of \<^verbatim>\<open>adjustDimensions\<close> applied to integer dimensions in range, for some scale
  factor (1 when they have not been adjusted); the scale factor is the root of a finite
  number.
\<close>

definition scaledFromRange :: "loop_state \<Rightarrow> bool" where
  "scaledFromRange s \<longleftrightarrow>
     (\<exists>w h :: int. \<exists>x :: real.
        50 \<le> w \<and> w \<le> 32767 \<and> 50 \<le> h \<and> h \<le> 32767 \<and> 0 \<le> x \<and> x \<le> 2 ^ 512 \<and>
        width s = Fin (real_of_int (max (round (real_of_int w * x)) 50)) \<and>
        height s = Fin (real_of_int (max (round (real_of_int h * x)) 50)))"

text \<open>
  The state of an iteration that takes the quality branch of line 420: a JPEG format, a
  width or height at the ceiling, and none above it, so that the ceiling check of lines
  365 to 399 does nothing.
\<close>

definition qualitySearch :: "config \<Rightarrow> loop_state \<Rightarrow> bool" where
  "qualitySearch c s \<longleftrightarrow>
     atCeiling c s \<and> \<not> width s > maxDimension \<and> \<not> height s > maxDimension"

text \<open>
  The hypotheses under which the arithmetic of a call stays finite: the target in bytes
  has not overflowed, and the encoder never returns an empty buffer.
\<close>

definition finiteTarget :: "config \<Rightarrow> bool" where
  "finiteTarget c \<longleftrightarrow> targetSizeMB c * 1024 * 1024 < overflow"

definition neverEmpty :: "jimp option \<Rightarrow> bool" where
  "neverEmpty Jimp \<longleftrightarrow> (case Jimp of None \<Rightarrow> True | Some encode \<Rightarrow> (\<forall>r. encode r \<noteq> []))"

definition factorOf :: "string \<Rightarrow> real" where
  \<comment> \<open>the factor \<^verbatim>\<open>compressionFactors[...] || 1.5\<close> when the property read is a number or
      \<^verbatim>\<open>undefined\<close>\<close>
  "factorOf f = (if toLowerCase f = ''png'' then 1.2 else 1.5)"

text \<open>
  The reference definition of the estimator, in the words of the specification: the factor is 1.5 for
  jpg and jpeg, 1.2 for png and 1.5 otherwise (formats are case-insensitive); the solved
  width and height are, if either exceeds 32767, rescaled so that the larger one equals
  32767 and then each limited to 32767; each is rounded and raised to 100 and 56.
\<close>

definition referenceEstimate :: "real \<Rightarrow> string \<Rightarrow> int \<times> int" where
  "referenceEstimate targetSizeBytes fmt =
     (let f = toLowerCase fmt;
          factor = (if f = ''jpg'' \<or> f = ''jpeg'' then 1.5 else if f = ''png'' then 1.2 else 1.5);
          estimatedPixels = targetSizeBytes / factor;
          w = sqrt (estimatedPixels * (16 / 9));
          h = estimatedPixels / w;
          (w', h') =
            (if w > 32767 \<or> h > 32767
             then let k = 32767 / max w h in (min (w * k) 32767, min (h * k) 32767)
             else (w, h))
      in (max (round w') 100, max (round h') 56))"

text \<open>
  A 54 MB JPEG with a budget of one iteration, against an encoder whose buffers always
  have 1572864 bytes: the estimate is 8192 by 4608, the render misses the target by a
  factor of 36, and the dimensions are scaled by 6.
\<close>

definition paddedEncoder :: jimp where
  "paddedEncoder r = replicate 1572864 0"

definition jpg54 :: config where
  "jpg54 = \<lparr>targetSizeMB = 54, format = ''jpg'', backgroundColor = None, textColor = None,
            maxIterations = Some 1, tolerance = None\<rparr>"

text \<open>An 864 MB JPEG, whose estimate is at the ceiling.\<close>

definition jpg864 :: config where
  "jpg864 = \<lparr>targetSizeMB = 864, format = ''jpg'', backgroundColor = None, textColor = None,
             maxIterations = Some 1, tolerance = None\<rparr>"

text \<open>The same request with a budget of three iterations.\<close>

definition jpg864x3 :: config where
  "jpg864x3 = \<lparr>targetSizeMB = 864, format = ''jpg'', backgroundColor = None, textColor = None,
               maxIterations = Some 3, tolerance = None\<rparr>"

text \<open>
  The 54 MB JPEG with a budget of two iterations, for an encoder that returns an empty
  buffer, and a PNG whose target of \<open>2 ^ 1004\<close> MB overflows when converted to bytes.
\<close>

definition emptyEncoder :: jimp where
  "emptyEncoder r = []"

definition jpg54x2 :: config where
  "jpg54x2 = \<lparr>targetSizeMB = 54, format = ''jpg'', backgroundColor = None, textColor = None,
              maxIterations = Some 2, tolerance = None\<rparr>"

definition pngHuge :: config where
  "pngHuge = \<lparr>targetSizeMB = 2 ^ 1004, format = ''png'', backgroundColor = None,
              textColor = None, maxIterations = Some 2, tolerance = None\<rparr>"

section \<open>Properties\<close>

subsection \<open>Arithmetic of numbers\<close>

lemma overflow_pos: "0 < overflow"
  by (simp add: overflow_def)

lemma overflow_large: "2 ^ 1023 < overflow"
  by (simp add: overflow_def)

lemma num_Fin [simp]: "- overflow < x \<Longrightarrow> x < overflow \<Longrightarrow> num x = Fin x"
  by (simp add: num_def)

lemma less_eq_Fin [simp]: "Fin a \<le> Fin b \<longleftrightarrow> a \<le> b"
  by (auto simp: less_eq_number_def)

lemma Math_max_Fin [simp]: "Math_max (Fin a) (Fin b) = Fin (max a b)"
  by (simp add: max_def)

lemma Math_min_Fin [simp]: "Math_min (Fin a) (Fin b) = Fin (min a b)"
  by (simp add: min_def)

lemma not_above_Math_min: "\<not> Math_min a maxDimension > maxDimension"
  by (cases a) (simp_all add: maxDimension_def)

lemma sqrt_lt_overflow:
  assumes "0 \<le> x" and "x < overflow"
  shows "sqrt x < overflow"
proof (cases "x \<le> 1")
  case True
  then have "sqrt x \<le> 1" using assms(1) by simp
  also have "1 < overflow" by (simp add: overflow_def)
  finally show ?thesis .
next
  case False
  then have "1 \<le> sqrt x" by simp
  then have "sqrt x * 1 \<le> sqrt x * sqrt x" by (intro mult_left_mono) simp_all
  then have "sqrt x \<le> x" using assms(1) by simp
  with assms(2) show ?thesis by simp
qed

subsection \<open>The loop body\<close>

lemma iterate_Continue_iteration:
  "iterate Jimp c s = Continue s' \<Longrightarrow> iteration s' = iteration s + 1"
  by (auto simp: iterate_def ceilingCheck_def Let_def
           split: sum.splits if_splits dimensions.splits prod.splits)

lemma loop_unfold:
  "loop Jimp c cs s =
     (if int (iteration s) < maxIterationsOf c then
        (case iterate Jimp c s of
           Throw e \<Rightarrow> (cs @ [renderRequest c (ceilingCheck c s)], Inl e)
         | Break s' \<Rightarrow> (cs @ [renderRequest c (ceilingCheck c s)], Inr s')
         | Continue s' \<Rightarrow> loop Jimp c (cs @ [renderRequest c (ceilingCheck c s)]) s')
      else (cs, Inr s))"
  by (rule loop.simps)

declare loop.simps [simp del]

lemma atCeiling_render [simp]:
  "atCeiling c (s\<lparr>buffer := b, actualSize := a\<rparr>) = atCeiling c s"
  by (simp add: atCeiling_def)

lemma ceilingCheck_iteration [simp]: "iteration (ceilingCheck c s) = iteration s"
  by (simp add: ceilingCheck_def Let_def split: prod.splits)

lemma sqrt_36: "sqrt 36 = 6"
  by (rule real_sqrt_unique) simp_all

subsection \<open>Validation before rendering\<close>

lemma isFormatSupported_iff:
  "isFormatSupported f \<longleftrightarrow> toLowerCase f \<in> {''jpg'', ''jpeg'', ''png''}"
  by (simp add: isFormatSupported_def supportedFormats_def)

text \<open>
  C3, as amended. For every configuration with \<open>targetSizeMB \<le> 0\<close> the call fails with the
  invalid-target error, and for every configuration with \<open>targetSizeMB > 0\<close> whose format,
  lower-cased, is none of jpg, jpeg and png it fails with the unsupported-format error; in
  both cases no request has been made to the renderer and nothing is returned. The target
  is checked first, so a configuration that fails both checks gets the invalid-target
  error.
\<close>

theorem validation_precedes_rendering:
  "(targetSizeMB c \<le> 0 \<longrightarrow>
      generateImageWithTargetSize Jimp c =
        \<lparr>calls = [], warned = False, result = Inl InvalidTarget\<rparr>)
   \<and> (0 < targetSizeMB c \<and> toLowerCase (format c) \<notin> {''jpg'', ''jpeg'', ''png''} \<longrightarrow>
      generateImageWithTargetSize Jimp c =
        \<lparr>calls = [], warned = False, result = Inl UnsupportedFormat\<rparr>)"
  by (simp add: generateImageWithTargetSize_def isFormatSupported_iff)

theorem validation_precedes_rendering_witness:
  "generateImageWithTargetSize (Some (\<lambda>r. [0]))
      \<lparr>targetSizeMB = - 1, format = ''png'', backgroundColor = None, textColor = None,
       maxIterations = None, tolerance = None\<rparr>
     = \<lparr>calls = [], warned = False, result = Inl InvalidTarget\<rparr>
   \<and> generateImageWithTargetSize (Some (\<lambda>r. [0]))
      \<lparr>targetSizeMB = 1, format = ''gif'', backgroundColor = None, textColor = None,
       maxIterations = None, tolerance = None\<rparr>
     = \<lparr>calls = [], warned = False, result = Inl UnsupportedFormat\<rparr>"
  using validation_precedes_rendering
          [of "\<lparr>targetSizeMB = - 1, format = ''png'', backgroundColor = None, textColor = None,
                maxIterations = None, tolerance = None\<rparr>" "Some (\<lambda>r. [0])"]
        validation_precedes_rendering
          [of "\<lparr>targetSizeMB = 1, format = ''gif'', backgroundColor = None, textColor = None,
                maxIterations = None, tolerance = None\<rparr>" "Some (\<lambda>r. [0])"]
  by (simp add: toLowerCase_def lowerChar_def)

text \<open>
  C3 as stated fails where both checks fail: with target 0 and format gif the error is the
  invalid-target one, not the unsupported-format one.
\<close>

theorem unsupported_format_counterexample:
  "toLowerCase ''gif'' \<notin> {''jpg'', ''jpeg'', ''png''}
   \<and> result (generateImageWithTargetSize (Some (\<lambda>r. [0]))
        \<lparr>targetSizeMB = 0, format = ''gif'', backgroundColor = None, textColor = None,
         maxIterations = None, tolerance = None\<rparr>) \<noteq> Inl UnsupportedFormat"
  by (simp add: generateImageWithTargetSize_def toLowerCase_def lowerChar_def)

subsection \<open>The estimator in closed form\<close>

lemma round_18431: "round (294903 / 16 :: real) = 18431"
  by (simp add: round_def)

lemma factorOr_factorOf:
  "compressionFactors (toLowerCase f) \<noteq> Inherited \<Longrightarrow>
   factorOr (compressionFactors (toLowerCase f)) 1.5 = Fin (factorOf f)"
  by (auto simp: factorOr_def compressionFactors_def factorOf_def split: if_splits)

lemma limited_16_9:
  "(let (w, h) = (maxDimension, maxDimension / (Fin 16 / Fin 9))
    in Dimensions (Math_max (Math_round (Math_min w maxDimension)) (Fin 100))
                  (Math_max (Math_round (Math_min h maxDimension)) (Fin 56)))
   = Dimensions (Fin 32767) (Fin 18431)"
  by (simp add: maxDimension_def overflow_def round_18431)

lemma estimate_closed_form:
  assumes "0 < T" and "T < overflow" and "compressionFactors (toLowerCase f) \<noteq> Inherited"
  shows "estimateInitialDimensions (Fin T) f =
           (let w = sqrt (T / factorOf f * (16 / 9))
            in if w > 32767 then Dimensions (Fin 32767) (Fin 18431)
               else Dimensions (Fin (real_of_int (max (round w) 100)))
                               (Fin (real_of_int (max (round (9 * w / 16)) 56))))"
proof -
  define P where "P = T / factorOf f"
  define X where "X = P * (16 / 9)"
  define w where "w = sqrt X"
  have f1: "1 < factorOf f" by (simp add: factorOf_def)
  have Ppos: "0 < P" using assms(1) f1 by (simp add: P_def)
  have "P * 1 < P * factorOf f" using Ppos f1 by (intro mult_strict_left_mono) simp_all
  then have "P < T" using f1 by (simp add: P_def)
  then have Plt: "P < overflow" using assms(2) by simp
  have Xpos: "0 < X" using Ppos by (simp add: X_def)
  have wpos: "0 < w" using Xpos by (simp add: w_def)
  have "w * w = P * (16 / 9)" using Xpos by (simp add: w_def X_def)
  then have "P = (9 * w / 16) * w" by simp
  then have h: "P / w = 9 * w / 16" using wpos by (simp add: field_simps)
  have pix: "Fin T / factorOr (compressionFactors (toLowerCase f)) 1.5 = Fin P"
    unfolding factorOr_factorOf [OF assms(3)] P_def [symmetric]
    using f1 Ppos Plt overflow_pos by (simp add: P_def [symmetric])
  have asp: "Fin 16 / Fin 9 = Fin (16 / 9)" by (simp add: overflow_def)
  have m: "Fin P * Fin (16 / 9) = num X" unfolding X_def by (rule times_number.simps(1))
  have e: "estimateInitialDimensions (Fin T) f =
      (let width0 = Math_sqrt (Fin P * Fin (16 / 9));
           height0 = Fin P / width0;
           (width1, height1) =
            (if width0 > maxDimension \<or> height0 > maxDimension
             then
               let (w, h) =
                     (if width0 > height0
                      then (maxDimension, maxDimension / (Fin 16 / Fin 9))
                      else (maxDimension * (Fin 16 / Fin 9), maxDimension))
               in (Math_min w maxDimension, Math_min h maxDimension)
             else (width0, height0))
      in Dimensions (Math_max (Math_round width1) (Fin 100))
                    (Math_max (Math_round height1) (Fin 56)))"
    unfolding estimateInitialDimensions_def Let_def pix asp [symmetric] by (rule refl)
  have lim: "Dimensions (Math_max (Math_round (Math_min maxDimension maxDimension)) (Fin 100))
               (Math_max (Math_round (Math_min (maxDimension / (Fin 16 / Fin 9)) maxDimension))
                  (Fin 56))
             = Dimensions (Fin 32767) (Fin 18431)"
    using limited_16_9 by simp
  show ?thesis
  proof (cases "X < overflow")
    case True
    have wlt: "w < overflow" unfolding w_def using Xpos True by (intro sqrt_lt_overflow) simp_all
    have w0: "Math_sqrt (Fin P * Fin (16 / 9)) = Fin w"
      unfolding m using True Xpos overflow_pos by (simp add: w_def)
    have h0: "Fin P / Fin w = Fin (9 * w / 16)"
      using wpos wlt overflow_pos by (simp add: h)
    show ?thesis
    proof (cases "w > 32767")
      case big: True
      then have "estimateInitialDimensions (Fin T) f = Dimensions (Fin 32767) (Fin 18431)"
        unfolding e w0 Let_def h0 using wpos lim by (simp add: maxDimension_def)
      with big show ?thesis
        unfolding Let_def X_def [symmetric] P_def [symmetric] w_def [symmetric] by simp
    next
      case small: False
      then have "\<not> 9 * w / 16 > 32767" using wpos by simp
      with small have "estimateInitialDimensions (Fin T) f =
          Dimensions (Fin (real_of_int (max (round w) 100)))
                     (Fin (real_of_int (max (round (9 * w / 16)) 56)))"
        unfolding e w0 Let_def h0 by (simp add: maxDimension_def)
      with small show ?thesis
        unfolding Let_def X_def [symmetric] P_def [symmetric] w_def [symmetric] by simp
    qed
  next
    case False
    then have inf: "Fin P * Fin (16 / 9) = PosInf"
      unfolding m by (simp add: num_def)
    have "sqrt 1073676289 = 32767" by (rule real_sqrt_unique) simp_all
    moreover have "sqrt 1073676289 < sqrt X"
      using False by (intro real_sqrt_less_mono) (simp add: overflow_def)
    ultimately have big: "w > 32767" by (simp add: w_def)
    have "estimateInitialDimensions (Fin T) f = Dimensions (Fin 32767) (Fin 18431)"
      unfolding e inf Let_def using lim by (simp add: maxDimension_def)
    with big show ?thesis
      unfolding Let_def X_def [symmetric] P_def [symmetric] w_def [symmetric] by simp
  qed
qed

lemma round_le_max: "(y::real) \<le> 32767 \<Longrightarrow> round y \<le> 32767"
  using round_mono [of y 32767] by simp

lemma supported_not_inherited:
  "isFormatSupported f \<Longrightarrow> compressionFactors (toLowerCase f) \<noteq> Inherited"
  by (auto simp: isFormatSupported_iff compressionFactors_def)

lemma targetSizeBytesOf_cases:
  assumes "0 < targetSizeMB c"
  shows "targetSizeBytesOf c =
           (if finiteTarget c then Fin (targetSizeMB c * 1024 * 1024) else PosInf)"
proof (cases "targetSizeMB c * 1024 < overflow")
  case True
  then have "Fin (targetSizeMB c) * Fin 1024 = Fin (targetSizeMB c * 1024)"
    using assms overflow_pos by simp
  then show ?thesis
    using assms overflow_pos
    by (simp add: targetSizeBytesOf_def mbToBytes_def finiteTarget_def num_def)
next
  case False
  then have "Fin (targetSizeMB c) * Fin 1024 = PosInf"
    by (simp add: num_def)
  moreover have "\<not> finiteTarget c"
    using False assms by (simp add: finiteTarget_def)
  ultimately show ?thesis
    by (simp add: targetSizeBytesOf_def mbToBytes_def signedInf_def)
qed

lemma targetSizeBytesOf_finite:
  assumes "0 < targetSizeMB c" and "finiteTarget c"
  shows "\<exists>T. targetSizeBytesOf c = Fin T \<and> 0 < T \<and> T < overflow"
  using assms targetSizeBytesOf_cases [OF assms(1)]
  by (intro exI [of _ "targetSizeMB c * 1024 * 1024"]) (simp add: finiteTarget_def)

lemma estimate_bounds:
  assumes "0 < T" and "T < overflow" and nin: "compressionFactors (toLowerCase f) \<noteq> Inherited"
  shows "\<exists>w h :: int. estimateInitialDimensions (Fin T) f
                        = Dimensions (Fin (real_of_int w)) (Fin (real_of_int h))
           \<and> 100 \<le> w \<and> w \<le> 32767 \<and> 56 \<le> h \<and> h \<le> 32767"
proof -
  define x where "x = sqrt (T / factorOf f * (16 / 9))"
  have "0 \<le> x" by (simp add: x_def factorOf_def assms(1) less_imp_le)
  have r: "round x \<le> 32767 \<and> round (9 * x / 16) \<le> 32767" if "x \<le> 32767"
  proof -
    have "9 * x / 16 \<le> 32767" using that \<open>0 \<le> x\<close> by simp
    with that show ?thesis by (simp add: round_le_max)
  qed
  show ?thesis
  proof (cases "x > 32767")
    case True
    then have "estimateInitialDimensions (Fin T) f
                 = Dimensions (Fin (real_of_int 32767)) (Fin (real_of_int 18431))"
      unfolding estimate_closed_form [OF assms(1,2) nin] Let_def x_def [symmetric] by simp
    then show ?thesis by (intro exI [of _ 32767] exI [of _ 18431]) simp
  next
    case False
    then have "estimateInitialDimensions (Fin T) f
                 = Dimensions (Fin (real_of_int (max (round x) 100)))
                              (Fin (real_of_int (max (round (9 * x / 16)) 56)))"
      unfolding estimate_closed_form [OF assms(1,2) nin] Let_def x_def [symmetric] by simp
    then show ?thesis
      using r False
      by (intro exI [of _ "max (round x) 100"] exI [of _ "max (round (9 * x / 16)) 56"]) simp
  qed
qed

text \<open>Whatever the target and the format, the estimate is not above the ceiling.\<close>

lemma rounded_not_above:
  assumes "\<not> a > maxDimension" and "d \<le> 32767"
  shows "\<not> Math_max (Math_round a) (Fin d) > maxDimension"
proof (cases a)
  case (Fin x)
  with assms(1) have "x \<le> 32767" by (simp add: maxDimension_def)
  then have "round x \<le> 32767" by (rule round_le_max)
  then have "real_of_int (round x) \<le> 32767" by linarith
  with Fin assms(2) show ?thesis by (simp add: maxDimension_def)
qed (use assms in \<open>simp_all add: maxDimension_def\<close>)

lemma estimate_not_above:
  assumes "estimateInitialDimensions T f = Dimensions w h"
  shows "\<not> w > maxDimension \<and> \<not> h > maxDimension"
proof -
  define factor where "factor = factorOr (compressionFactors (toLowerCase f)) 1.5"
  define width0 where "width0 = Math_sqrt (T / factor * (Fin 16 / Fin 9))"
  define height0 where "height0 = T / factor / width0"
  define p where "p =
            (if width0 > maxDimension \<or> height0 > maxDimension
             then
               let (w, h) =
                     (if width0 > height0
                      then (maxDimension, maxDimension / (Fin 16 / Fin 9))
                      else (maxDimension * (Fin 16 / Fin 9), maxDimension))
               in (Math_min w maxDimension, Math_min h maxDimension)
             else (width0, height0))"
  have "\<not> fst p > maxDimension \<and> \<not> snd p > maxDimension"
    unfolding p_def using not_above_Math_min by (auto simp: Let_def split: if_splits)
  then have "\<not> Math_max (Math_round (fst p)) (Fin 100) > maxDimension"
    "\<not> Math_max (Math_round (snd p)) (Fin 56) > maxDimension"
    by (simp_all add: rounded_not_above)
  moreover have "estimateInitialDimensions T f =
      Dimensions (Math_max (Math_round (fst p)) (Fin 100))
                 (Math_max (Math_round (snd p)) (Fin 56))"
    by (simp add: estimateInitialDimensions_def p_def width0_def height0_def factor_def
          Let_def case_prod_beta)
  ultimately show ?thesis using assms by simp
qed

subsection \<open>Dimensions stay between the floor and the ceiling\<close>

lemma intRange_inRange: "intRange s \<Longrightarrow> inRange s"
  by (auto simp: intRange_def inRange_def maxDimension_def)

lemma intRange_scaledFromRange: "intRange s \<Longrightarrow> scaledFromRange s"
proof -
  assume "intRange s"
  then obtain w h :: int where
    "50 \<le> w" "w \<le> 32767" "50 \<le> h" "h \<le> 32767"
    "width s = Fin (real_of_int w)" "height s = Fin (real_of_int h)"
    by (auto simp: intRange_def)
  then show ?thesis
    unfolding scaledFromRange_def
    by (intro exI [of _ w] exI [of _ h] exI [of _ 1]) simp
qed

lemma scaledFromRange_floor:
  "scaledFromRange s \<Longrightarrow> Fin 50 \<le> width s \<and> Fin 50 \<le> height s"
  by (auto simp: scaledFromRange_def)

lemma round_ge_50: "99 / 2 \<le> (y::real) \<Longrightarrow> 50 \<le> round y"
  by (simp add: round_def le_floor_iff)

lemma rescaled_side:
  fixes A B :: int and x :: real
  assumes A: "real_of_int A \<le> 32767 * x + 1 / 2"
    and B: "50 * x - 1 / 2 < real_of_int B"
    and B50: "50 \<le> B" and AB: "B \<le> A"
  shows "50 \<le> round (32767 * real_of_int B / real_of_int A)
       \<and> round (32767 * real_of_int B / real_of_int A) \<le> 32767"
proof -
  have Apos: "0 < real_of_int A" using B50 AB by simp
  have B50r: "50 \<le> real_of_int B" using B50 by simp
  have "99 * real_of_int A \<le> 2 * 32767 * real_of_int B"
    using A B B50r by linarith
  then have "99 / 2 \<le> 32767 * real_of_int B / real_of_int A"
    using Apos by (simp add: field_simps)
  then have lo: "50 \<le> round (32767 * real_of_int B / real_of_int A)"
    by (rule round_ge_50)
  have "real_of_int B \<le> real_of_int A" using AB by simp
  then have "32767 * real_of_int B / real_of_int A \<le> 32767"
    using Apos by (simp add: field_simps)
  then have hi: "round (32767 * real_of_int B / real_of_int A) \<le> 32767"
    by (rule round_le_max)
  from lo hi show ?thesis ..
qed

lemma scaled_upper:
  fixes w :: int and x :: real
  assumes "w \<le> 32767" and "0 \<le> x" and "50 < max (round (real_of_int w * x)) 50"
  shows "real_of_int (max (round (real_of_int w * x)) 50) \<le> 32767 * x + 1 / 2"
proof -
  have "real_of_int (round (real_of_int w * x)) \<le> real_of_int w * x + 1 / 2"
    by (rule of_int_round_le)
  moreover have "real_of_int w * x \<le> 32767 * x"
    using assms(1,2) by (intro mult_right_mono) simp_all
  ultimately show ?thesis using assms(3) by (simp add: max_def split: if_splits)
qed

lemma scaled_lower:
  fixes h :: int and x :: real
  assumes "50 \<le> h" and "0 \<le> x"
  shows "50 * x - 1 / 2 < real_of_int (max (round (real_of_int h * x)) 50)"
proof -
  have "real_of_int h * x - 1 / 2 < real_of_int (round (real_of_int h * x))"
    by (rule of_int_round_gt)
  moreover have "50 * x \<le> real_of_int h * x"
    using assms by (intro mult_right_mono) simp_all
  moreover have "real_of_int (round (real_of_int h * x))
                   \<le> real_of_int (max (round (real_of_int h * x)) 50)"
    by simp
  ultimately show ?thesis by linarith
qed

lemma scaled_lt_overflow:
  fixes w :: int and x :: real
  assumes "0 \<le> w" and "w \<le> 32767" and "0 \<le> x" and "x \<le> 2 ^ 512"
  shows "real_of_int w * x < 2 ^ 528"
    and "real_of_int (max (round (real_of_int w * x)) 50) < overflow"
proof -
  have "real_of_int w * x \<le> 32767 * 2 ^ 512"
    using assms by (intro mult_mono) simp_all
  also have "\<dots> < (2::real) ^ 528" by simp
  finally show a: "real_of_int w * x < 2 ^ 528" .
  have "real_of_int (round (real_of_int w * x)) \<le> real_of_int w * x + 1 / 2"
    by (rule of_int_round_le)
  with a have "real_of_int (max (round (real_of_int w * x)) 50) < 2 ^ 528 + 1"
    by (simp add: max_def)
  also have "\<dots> < overflow" by (simp add: overflow_def)
  finally show "real_of_int (max (round (real_of_int w * x)) 50) < overflow" .
qed

lemma ceilingCheck_unchanged:
  "\<not> width s > maxDimension \<Longrightarrow> \<not> height s > maxDimension \<Longrightarrow> ceilingCheck c s = s"
  by (simp add: ceilingCheck_def)

lemma ceilingCheck_upper:
  "\<not> width (ceilingCheck c s) > maxDimension \<and> \<not> height (ceilingCheck c s) > maxDimension"
  using not_above_Math_min by (auto simp: ceilingCheck_def Let_def split: prod.splits)

text \<open>The ceiling check on a width and a height that are positive integers.\<close>

lemma ceilingCheck_int:
  fixes W H :: int
  assumes W: "width s = Fin (real_of_int W)" and H: "height s = Fin (real_of_int H)"
    and pos: "0 < W" "0 < H" and fin: "real_of_int W < overflow"
    and above: "32767 < W \<or> 32767 < H"
  shows "width (ceilingCheck c s) =
           Fin (real_of_int (if H < W then 32767
                             else min (round (32767 * real_of_int W / real_of_int H)) 32767))"
    and "height (ceilingCheck c s) =
           Fin (real_of_int (if H < W then min (round (32767 * real_of_int H / real_of_int W)) 32767
                             else 32767))"
proof -
  have Wr: "0 < real_of_int W" and Hr: "1 \<le> real_of_int H" using pos by simp_all
  have "real_of_int W / real_of_int H \<le> real_of_int W / 1"
    using Wr Hr by (intro divide_left_mono) simp_all
  then have q: "real_of_int W / real_of_int H < overflow" using fin by simp
  have qpos: "0 < real_of_int W / real_of_int H" using Wr Hr by simp
  have asp: "width s / height s = Fin (real_of_int W / real_of_int H)"
    unfolding W H using q qpos Hr overflow_pos by simp
  have ab: "width s > maxDimension \<or> height s > maxDimension"
    unfolding W H using above by (simp add: maxDimension_def)
  have cmp: "width s > height s \<longleftrightarrow> H < W" unfolding W H by simp
  have small: "num y = Fin y" if "0 \<le> y" "y \<le> 32767" for y
  proof -
    have "32767 < overflow" by (simp add: overflow_def)
    with that overflow_pos have "- overflow < y" "y < overflow" by linarith+
    then show ?thesis by (rule num_Fin)
  qed
  have wide: "maxDimension / Fin (real_of_int W / real_of_int H)
                = Fin (32767 * real_of_int H / real_of_int W)" if "H < W"
  proof -
    have "32767 * real_of_int H / real_of_int W \<le> 32767"
      using that Wr by (simp add: field_simps)
    moreover have "0 \<le> 32767 * real_of_int H / real_of_int W" using Wr Hr by simp
    ultimately have "num (32767 * real_of_int H / real_of_int W)
                       = Fin (32767 * real_of_int H / real_of_int W)"
      by (intro small)
    then show ?thesis
      using pos by (simp add: maxDimension_def)
  qed
  have tall: "maxDimension * Fin (real_of_int W / real_of_int H)
                = Fin (32767 * real_of_int W / real_of_int H)" if "\<not> H < W"
  proof -
    have "32767 * real_of_int W / real_of_int H \<le> 32767"
      using that Hr by (simp add: field_simps)
    moreover have "0 \<le> 32767 * real_of_int W / real_of_int H" using Wr Hr by simp
    ultimately have "num (32767 * real_of_int W / real_of_int H)
                       = Fin (32767 * real_of_int W / real_of_int H)"
      by (intro small)
    then show ?thesis
      using pos by (simp add: maxDimension_def)
  qed
  show "width (ceilingCheck c s) =
           Fin (real_of_int (if H < W then 32767
                             else min (round (32767 * real_of_int W / real_of_int H)) 32767))"
    using ab cmp wide tall
    by (simp add: ceilingCheck_def Let_def asp) (simp add: maxDimension_def)
  show "height (ceilingCheck c s) =
           Fin (real_of_int (if H < W then min (round (32767 * real_of_int H / real_of_int W)) 32767
                             else 32767))"
    using ab cmp wide tall
    by (simp add: ceilingCheck_def Let_def asp) (simp add: maxDimension_def)
qed

lemma scaledFromRange_int:
  assumes "scaledFromRange s"
  obtains W H :: int and w h :: int and x :: real where
    "50 \<le> w" "w \<le> 32767" "50 \<le> h" "h \<le> 32767" "0 \<le> x" "x \<le> 2 ^ 512"
    "W = max (round (real_of_int w * x)) 50" "H = max (round (real_of_int h * x)) 50"
    "width s = Fin (real_of_int W)" "height s = Fin (real_of_int H)"
    "50 \<le> W" "50 \<le> H" "real_of_int W < overflow"
proof -
  from assms obtain w h :: int and x :: real where
    a: "50 \<le> w" "w \<le> 32767" "50 \<le> h" "h \<le> 32767" "0 \<le> x" "x \<le> 2 ^ 512"
    "width s = Fin (real_of_int (max (round (real_of_int w * x)) 50))"
    "height s = Fin (real_of_int (max (round (real_of_int h * x)) 50))"
    unfolding scaledFromRange_def by blast
  have "real_of_int (max (round (real_of_int w * x)) 50) < overflow"
    using a by (intro scaled_lt_overflow) simp_all
  with a show ?thesis
    by (intro that [of w h x "max (round (real_of_int w * x)) 50"
                       "max (round (real_of_int h * x)) 50"]) simp_all
qed

lemma ceilingCheck_inRange:
  assumes "scaledFromRange s"
  shows "intRange (ceilingCheck c s)"
proof -
  from assms obtain W H w h :: int and x :: real where
    w: "50 \<le> w" "w \<le> 32767" and h: "50 \<le> h" "h \<le> 32767" and x: "0 \<le> x"
    and Wd: "W = max (round (real_of_int w * x)) 50"
    and Hd: "H = max (round (real_of_int h * x)) 50"
    and W: "width s = Fin (real_of_int W)" and H: "height s = Fin (real_of_int H)"
    and lo: "50 \<le> W" "50 \<le> H" and fin: "real_of_int W < overflow"
    by (rule scaledFromRange_int)
  show ?thesis
  proof (cases "32767 < W \<or> 32767 < H")
    case False
    then have "ceilingCheck c s = s"
      unfolding ceilingCheck_def W H by (simp add: maxDimension_def)
    with False lo W H show ?thesis
      unfolding intRange_def by (intro exI [of _ W] exI [of _ H]) simp
  next
    case True
    have pos: "0 < W" "0 < H" using lo by simp_all
    note cc = ceilingCheck_int [OF W H pos fin True, of c]
    show ?thesis
    proof (cases "H < W")
      case wide: True
      with True have "50 < W" by linarith
      then have A: "real_of_int W \<le> 32767 * x + 1 / 2"
        unfolding Wd using w(2) x by (intro scaled_upper)
      have B: "50 * x - 1 / 2 < real_of_int H"
        unfolding Hd using h(1) x by (rule scaled_lower)
      have r: "50 \<le> round (32767 * real_of_int H / real_of_int W)
          \<and> round (32767 * real_of_int H / real_of_int W) \<le> 32767"
        using A B lo(2) wide by (intro rescaled_side) simp_all
      show ?thesis
        unfolding intRange_def
        using cc wide r
        by (intro exI [of _ 32767] exI [of _ "round (32767 * real_of_int H / real_of_int W)"])
           simp
    next
      case tall: False
      with True have "50 < H" by linarith
      then have A: "real_of_int H \<le> 32767 * x + 1 / 2"
        unfolding Hd using h(2) x by (intro scaled_upper)
      have B: "50 * x - 1 / 2 < real_of_int W"
        unfolding Wd using w(1) x by (rule scaled_lower)
      have r: "50 \<le> round (32767 * real_of_int W / real_of_int H)
          \<and> round (32767 * real_of_int W / real_of_int H) \<le> 32767"
        using A B lo(1) tall by (intro rescaled_side) simp_all
      show ?thesis
        unfolding intRange_def
        using cc tall r
        by (intro exI [of _ "round (32767 * real_of_int W / real_of_int H)"] exI [of _ 32767])
           simp
    qed
  qed
qed

text \<open>
  \<^verbatim>\<open>adjustDimensions\<close> on a buffer that is not empty, a finite positive target and
  integer dimensions in range.
\<close>

lemma sqrt_le_bound:
  fixes x b :: real
  assumes "0 \<le> b" and "x \<le> b\<^sup>2"
  shows "sqrt x \<le> b"
proof -
  have "sqrt x \<le> sqrt (b\<^sup>2)" using assms(2) by (rule real_sqrt_le_mono)
  also have "\<dots> = b" using assms(1) by (simp only: real_sqrt_abs abs_of_nonneg)
  finally show ?thesis .
qed

lemma sqrt_overflow: "sqrt overflow \<le> 2 ^ 512"
  by (rule sqrt_le_bound) (simp_all add: overflow_def)

lemma adjustDimensions_int:
  fixes w h :: int and a :: nat
  assumes a: "0 < a" and T: "0 < T" "T < overflow"
    and w: "0 < w" "w \<le> 32767" and h: "0 < h" "h \<le> 32767"
  shows "adjustDimensions (Fin (real a)) (Fin T) (Fin (real_of_int w)) (Fin (real_of_int h)) =
           Dimensions (Fin (real_of_int (max (round (real_of_int w * sqrt (T / real a))) 50)))
                      (Fin (real_of_int (max (round (real_of_int h * sqrt (T / real a))) 50)))"
    and "0 \<le> sqrt (T / real a)" and "sqrt (T / real a) \<le> 2 ^ 512"
proof -
  define x where "x = sqrt (T / real a)"
  have a1: "1 \<le> real a" using a by simp
  have "T / real a \<le> T / 1" using T(1) a1 by (intro divide_left_mono) simp_all
  then have q: "T / real a < overflow" "0 < T / real a" using T a by simp_all
  have ratio: "Fin T / Fin (real a) = Fin (T / real a)"
    using q a overflow_pos by simp
  have root: "Math_sqrt (Fin (T / real a)) = Fin x"
    using q by (simp add: x_def)
  have "sqrt (T / real a) \<le> sqrt overflow" using q by (intro real_sqrt_le_mono) simp
  then show x512: "sqrt (T / real a) \<le> 2 ^ 512" using sqrt_overflow by (rule order_trans)
  show x0: "0 \<le> sqrt (T / real a)" using q by simp
  have prod: "Fin (real_of_int v) * Fin x = Fin (real_of_int v * x)"
    if "0 < v" "v \<le> 32767" for v :: int
  proof -
    have "real_of_int v * x < 2 ^ 528"
      using that x0 x512 by (intro scaled_lt_overflow(1)) (simp_all add: x_def)
    also have "(2::real) ^ 528 < overflow" by (simp add: overflow_def)
    finally have "real_of_int v * x < overflow" .
    moreover have "0 \<le> real_of_int v * x" using that x0 by (simp add: x_def)
    ultimately show ?thesis using overflow_pos by simp
  qed
  show "adjustDimensions (Fin (real a)) (Fin T) (Fin (real_of_int w)) (Fin (real_of_int h)) =
           Dimensions (Fin (real_of_int (max (round (real_of_int w * sqrt (T / real a))) 50)))
                      (Fin (real_of_int (max (round (real_of_int h * sqrt (T / real a))) 50)))"
    unfolding adjustDimensions_def Let_def ratio root prod [OF w] prod [OF h] x_def [symmetric]
    by simp
qed

lemma iterate_Continue_scaled:
  assumes it: "iterate Jimp c s = Continue s'" and r: "intRange (ceilingCheck c s)"
    and ne: "neverEmpty Jimp"
    and T: "targetSizeBytesOf c = Fin T" "0 < T" "T < overflow"
  shows "scaledFromRange s'"
proof -
  let ?s1 = "ceilingCheck c s"
  from r obtain w h :: int where
    w: "50 \<le> w" "w \<le> 32767" and h: "50 \<le> h" "h \<le> 32767"
    and W: "width ?s1 = Fin (real_of_int w)" and H: "height ?s1 = Fin (real_of_int h)"
    by (auto simp: intRange_def)
  from it obtain buf where
    buf: "generateImageWithText Jimp (renderRequest c ?s1) = Inr buf"
    by (auto simp: iterate_def Let_def split: sum.splits)
  then have "buf \<noteq> []"
    using ne by (auto simp: generateImageWithText_def neverEmpty_def
                      split: option.splits sum.splits if_splits)
  then have len: "0 < length buf" by simp
  from it buf consider
      (quality) "width s' = width ?s1" "height s' = height ?s1"
    | (dims) "adjustDimensions (Fin (real (length buf))) (Fin T) (width ?s1) (height ?s1)
                = Dimensions (width s') (height s')"
    by (auto simp: iterate_def Let_def getImageSize_def T(1)
             split: if_splits dimensions.splits)
  then show ?thesis
  proof cases
    case quality
    with r have "intRange s'" by (simp add: intRange_def)
    then show ?thesis by (rule intRange_scaledFromRange)
  next
    case dims
    have wp: "0 < w" "0 < h" using w h by simp_all
    note adj = adjustDimensions_int [OF len T(2,3) wp(1) w(2) wp(2) h(2)]
    from dims have "width s' = Fin (real_of_int (max (round (real_of_int w * sqrt (T / real (length buf)))) 50))"
      "height s' = Fin (real_of_int (max (round (real_of_int h * sqrt (T / real (length buf)))) 50))"
      unfolding W H adj(1) by simp_all
    with w h adj(2,3) show ?thesis
      unfolding scaledFromRange_def
      by (intro exI [of _ w] exI [of _ h] exI [of _ "sqrt (T / real (length buf))"]) simp
  qed
qed

lemma initial_intRange:
  assumes "0 < T" and "T < overflow" and "isFormatSupported f"
    and "estimateInitialDimensions (Fin T) f = Dimensions w h"
  shows "intRange \<lparr>width = w, height = h, quality = q, iteration = i,
                   buffer = b, actualSize = a\<rparr>"
proof -
  from estimate_bounds [OF assms(1,2) supported_not_inherited [OF assms(3)]] assms(4)
  obtain w' h' :: int where
    "w = Fin (real_of_int w')" "h = Fin (real_of_int h')"
    "100 \<le> w'" "w' \<le> 32767" "56 \<le> h'" "h' \<le> 32767"
    by auto
  then show ?thesis
    unfolding intRange_def by (intro exI [of _ w'] exI [of _ h']) simp
qed

lemma reachable_scaled:
  assumes "reachable Jimp c s" and "neverEmpty Jimp" and "finiteTarget c"
  shows "scaledFromRange s"
  using assms(1)
proof (induction rule: reachable.induct)
  case (start w h)
  from targetSizeBytesOf_finite [OF start(1) assms(3)] obtain T where
    T: "targetSizeBytesOf c = Fin T" "0 < T" "T < overflow" by blast
  show ?case
    using start T by (intro intRange_scaledFromRange initial_intRange [of T "format c"]) simp_all
next
  case (continue s s')
  have "0 < targetSizeMB c"
    using continue(1) by (induction rule: reachable.induct) simp_all
  from targetSizeBytesOf_finite [OF this assms(3)] obtain T where
    T: "targetSizeBytesOf c = Fin T" "0 < T" "T < overflow" by blast
  show ?case
    using continue T assms(2)
    by (intro iterate_Continue_scaled [of Jimp c s s' T] ceilingCheck_inRange)
qed

lemma loop_inRange:
  assumes "loop Jimp c cs s = (cs', r)" and "scaledFromRange s"
    and "\<forall>q \<in> set cs. requestInRange q"
    and "neverEmpty Jimp"
    and "targetSizeBytesOf c = Fin T" and "0 < T" and "T < overflow"
  shows "(\<forall>q \<in> set cs'. requestInRange q)
       \<and> (\<forall>s'. r = Inr s' \<longrightarrow> Fin 50 \<le> width s' \<and> Fin 50 \<le> height s')"
  using assms
proof (induction Jimp c cs s rule: loop.induct)
  case (1 Jimp c cs s)
  let ?s1 = "ceilingCheck c s"
  have in1: "intRange ?s1" using "1.prems"(2) by (rule ceilingCheck_inRange)
  then have in1': "inRange ?s1" by (rule intRange_inRange)
  then have req: "requestInRange (renderRequest c ?s1)"
    by (simp add: requestInRange_def renderRequest_def inRange_def maxDimension_def)
  show ?case
  proof (cases "int (iteration s) < maxIterationsOf c")
    case False
    with "1.prems"(1,3) scaledFromRange_floor [OF "1.prems"(2)] show ?thesis
      by (auto simp: loop_unfold [of Jimp c cs s])
  next
    case True
    show ?thesis
    proof (cases "iterate Jimp c s")
      case (Continue s')
      have "scaledFromRange s'"
        using Continue in1 "1.prems"(4-7) by (rule iterate_Continue_scaled)
      moreover have "loop Jimp c (cs @ [renderRequest c ?s1]) s' = (cs', r)"
        using "1.prems"(1) True Continue by (simp add: loop_unfold [of Jimp c cs s])
      moreover have "\<forall>q \<in> set (cs @ [renderRequest c ?s1]). requestInRange q"
        using "1.prems"(3) req by simp
      ultimately show ?thesis
        using "1.IH" [OF True Continue] "1.prems"(4-7) by blast
    next
      case (Break s')
      then have "width s' = width ?s1" "height s' = height ?s1"
        by (auto simp: iterate_def Let_def split: sum.splits if_splits dimensions.splits)
      with "1.prems"(1,3) True Break req in1' show ?thesis
        by (auto simp: loop_unfold [of Jimp c cs s] inRange_def)
    next
      case (Throw e)
      with "1.prems"(1,3) True req show ?thesis
        by (auto simp: loop_unfold [of Jimp c cs s])
    qed
  qed
qed

lemma ceilingCheck_rescales:
  assumes "scaledFromRange s"
  shows "\<exists>W H :: int.
           width s = Fin (real_of_int W) \<and> height s = Fin (real_of_int H)
         \<and> (32767 < W \<and> H < W \<longrightarrow>
              width (ceilingCheck c s) = Fin 32767 \<and>
              height (ceilingCheck c s)
                = Fin (real_of_int (round (32767 * real_of_int H / real_of_int W))))
         \<and> (32767 < H \<and> W \<le> H \<longrightarrow>
              height (ceilingCheck c s) = Fin 32767 \<and>
              width (ceilingCheck c s)
                = Fin (real_of_int (round (32767 * real_of_int W / real_of_int H))))"
proof -
  from assms obtain W H :: int where
    W: "width s = Fin (real_of_int W)" and H: "height s = Fin (real_of_int H)"
    and lo: "50 \<le> W" "50 \<le> H" and fin: "real_of_int W < overflow"
    by (rule scaledFromRange_int)
  have pos: "0 < W" "0 < H" using lo by simp_all
  have le: "round (32767 * real_of_int b / real_of_int a) \<le> 32767"
    if "50 \<le> b" "b \<le> a" for a b :: int
  proof -
    have "0 < real_of_int a" and "real_of_int b \<le> real_of_int a" using that by simp_all
    then have "32767 * real_of_int b / real_of_int a \<le> 32767"
      by (simp add: field_simps)
    then show ?thesis by (rule round_le_max)
  qed
  have wide: "width (ceilingCheck c s) = Fin 32767 \<and>
            height (ceilingCheck c s)
              = Fin (real_of_int (round (32767 * real_of_int H / real_of_int W)))"
    if "32767 < W" "H < W"
    using that le [of H W] lo ceilingCheck_int [OF W H pos fin, of c]
    by (simp add: min_def)
  have tall: "height (ceilingCheck c s) = Fin 32767 \<and>
            width (ceilingCheck c s)
              = Fin (real_of_int (round (32767 * real_of_int W / real_of_int H)))"
    if "32767 < H" "W \<le> H"
    using that le [of W H] lo ceilingCheck_int [OF W H pos fin, of c]
    by (simp add: min_def)
  from W H wide tall show ?thesis by blast
qed

subsection \<open>Runs, evaluated\<close>

lemma sqrt_2_26: "sqrt 67108864 = 8192"
  by (rule real_sqrt_unique) simp_all

lemma jpg_facts:
  "toLowerCase ''jpg'' = ''jpg''" "isFormatSupported ''jpg''" "isJpeg ''jpg''"
  by (simp_all add: isFormatSupported_iff isJpeg_def toLowerCase_def lowerChar_def)

lemma png_facts:
  "toLowerCase ''png'' = ''png''" "isFormatSupported ''png''" "\<not> isJpeg ''png''"
  by (simp_all add: isFormatSupported_iff isJpeg_def toLowerCase_def lowerChar_def)

lemma factor_facts:
  "factorOf ''jpg'' = 1.5" "factorOf ''png'' = 1.2"
  "compressionFactors (toLowerCase ''jpg'') \<noteq> Inherited"
  "compressionFactors (toLowerCase ''png'') \<noteq> Inherited"
  by (simp_all add: factorOf_def toLowerCase_def lowerChar_def compressionFactors_def)

lemma target_jpg54: "targetSizeBytesOf jpg54 = Fin 56623104"
  by (simp add: targetSizeBytesOf_def mbToBytes_def jpg54_def overflow_def)

lemma estimate_jpg54:
  "estimateInitialDimensions (targetSizeBytesOf jpg54) (format jpg54)
     = Dimensions (Fin 8192) (Fin 4608)"
proof -
  have "estimateInitialDimensions (Fin 56623104) ''jpg'' = Dimensions (Fin 8192) (Fin 4608)"
    by (subst estimate_closed_form)
       (simp_all add: factor_facts overflow_def sqrt_2_26 Let_def)
  then show ?thesis unfolding target_jpg54 by (simp add: jpg54_def)
qed

lemma iterate_jpg54:
  "iterate (Some paddedEncoder) jpg54
     \<lparr>width = Fin 8192, height = Fin 4608, quality = 90, iteration = 0,
      buffer = None, actualSize = None\<rparr>
   = Continue \<lparr>width = Fin 49152, height = Fin 27648, quality = 90, iteration = 1,
        buffer = Some (replicate 1572864 0), actualSize = Some 1572864\<rparr>"
  unfolding iterate_def target_jpg54
  by (simp add: ceilingCheck_def maxDimension_def renderRequest_def
        generateImageWithText_def validateDimensions_def jpg54_def jpg_facts paddedEncoder_def
        getImageSize_def isWithinTolerance_def toleranceOf_def
        atCeiling_def adjustDimensions_def sqrt_36 Let_def overflow_def)

lemma run_jpg54:
  "generateImageWithTargetSize (Some paddedEncoder) jpg54 =
     \<lparr>calls = [\<lparr>img_width = Fin 8192, img_height = Fin 4608, img_format = ''jpg'',
                img_sizeMB = 54, img_backgroundColor = ''#ffffff'',
                img_textColor = ''#000000'', img_quality = 90\<rparr>],
      warned = True,
      result = Inr \<lparr>out_buffer = Some (replicate 1572864 0), out_width = Fin 49152,
                    out_height = Fin 27648, out_actualSizeBytes = Some 1572864,
                    out_actualSizeMB = Fin 1.5, out_targetSizeMB = 54, out_iterations = 2,
                    out_format = ''jpg'', out_quality = Some 90\<rparr>\<rparr>"
proof -
  have "loop (Some paddedEncoder) jpg54 []
          \<lparr>width = Fin 8192, height = Fin 4608, quality = 90, iteration = 0,
           buffer = None, actualSize = None\<rparr>
        = ([renderRequest jpg54 \<lparr>width = Fin 8192, height = Fin 4608, quality = 90,
                                  iteration = 0, buffer = None, actualSize = None\<rparr>],
           Inr \<lparr>width = Fin 49152, height = Fin 27648, quality = 90, iteration = 1,
                buffer = Some (replicate 1572864 0), actualSize = Some 1572864\<rparr>)"
    apply (subst loop_unfold)
    apply (simp add: iterate_jpg54)
    apply (subst loop_unfold)
    apply (simp add: jpg54_def maxIterationsOf_def ceilingCheck_def maxDimension_def)
    done
  then show ?thesis
    unfolding generateImageWithTargetSize_def estimate_jpg54
    by (simp add: jpg54_def jpg_facts renderRequest_def maxIterationsOf_def
          backgroundColorOf_def textColorOf_def bytesToMB_def overflow_def)
qed

lemma reachable_jpg54:
  "reachable (Some paddedEncoder) jpg54
     \<lparr>width = Fin 49152, height = Fin 27648, quality = 90, iteration = 1,
      buffer = Some (replicate 1572864 0), actualSize = Some 1572864\<rparr>"
proof -
  have "reachable (Some paddedEncoder) jpg54
          \<lparr>width = Fin 8192, height = Fin 4608, quality = 90, iteration = 0,
           buffer = None, actualSize = None\<rparr>"
    by (rule reachable.start [OF _ _ estimate_jpg54]) (simp_all add: jpg54_def jpg_facts)
  then show ?thesis
    by (rule reachable.continue [OF _ _ iterate_jpg54])
       (simp add: jpg54_def maxIterationsOf_def)
qed

lemma ceilingCheck_jpg54:
  "ceilingCheck jpg54
     \<lparr>width = Fin 49152, height = Fin 27648, quality = 90, iteration = i,
      buffer = Some (replicate 1572864 0), actualSize = Some 1572864\<rparr>
   = \<lparr>width = Fin 32767, height = Fin 18431, quality = 70, iteration = i,
      buffer = Some (replicate 1572864 0), actualSize = Some 1572864\<rparr>"
  unfolding ceilingCheck_def target_jpg54
  by (simp add: maxDimension_def Let_def jpg54_def jpg_facts seedQuality_def
        round_def overflow_def)

lemma neverEmpty_padded: "neverEmpty (Some paddedEncoder)"
  by (simp add: neverEmpty_def paddedEncoder_def)

lemma finiteTarget_jpg54: "finiteTarget jpg54"
  by (simp add: finiteTarget_def jpg54_def overflow_def)

text \<open>
  The 54 MB JPEG against the encoder of empty buffers. The first render, 8192 by 4608, is
  empty: the size ratio is \<^verbatim>\<open>Infinity\<close> and so are the adjusted width and height. The
  ceiling check of the second iteration computes the aspect ratio
  \<^verbatim>\<open>Infinity / Infinity\<close>, which is \<^verbatim>\<open>NaN\<close>: the height becomes 32767 and the width
  \<^verbatim>\<open>NaN\<close>, which \<^verbatim>\<open>validateDimensions\<close> lets through, and the second request is made
  with that width, which is also the width returned.
\<close>

lemma target_jpg54x2: "targetSizeBytesOf jpg54x2 = Fin 56623104"
  by (simp add: targetSizeBytesOf_def mbToBytes_def jpg54x2_def overflow_def)

lemma estimate_jpg54x2:
  "estimateInitialDimensions (targetSizeBytesOf jpg54x2) (format jpg54x2)
     = Dimensions (Fin 8192) (Fin 4608)"
  using estimate_jpg54 unfolding target_jpg54 target_jpg54x2
  by (simp add: jpg54_def jpg54x2_def)

lemma iterate_empty_1:
  "iterate (Some emptyEncoder) jpg54x2
     \<lparr>width = Fin 8192, height = Fin 4608, quality = 90, iteration = 0,
      buffer = None, actualSize = None\<rparr>
   = Continue \<lparr>width = PosInf, height = PosInf, quality = 90, iteration = 1,
        buffer = Some [], actualSize = Some 0\<rparr>"
  unfolding iterate_def target_jpg54x2
  by (simp add: ceilingCheck_def maxDimension_def renderRequest_def
        generateImageWithText_def validateDimensions_def jpg54x2_def jpg_facts emptyEncoder_def
        getImageSize_def isWithinTolerance_def toleranceOf_def
        atCeiling_def adjustDimensions_def Let_def overflow_def signedInf_def)

lemma ceilingCheck_empty_2:
  "ceilingCheck jpg54x2
     \<lparr>width = PosInf, height = PosInf, quality = 90, iteration = i,
      buffer = Some [], actualSize = Some 0\<rparr>
   = \<lparr>width = NaN, height = Fin 32767, quality = 70, iteration = i,
      buffer = Some [], actualSize = Some 0\<rparr>"
  unfolding ceilingCheck_def target_jpg54x2
  by (simp add: maxDimension_def Let_def jpg54x2_def jpg_facts seedQuality_def)

lemma iterate_empty_2:
  "iterate (Some emptyEncoder) jpg54x2
     \<lparr>width = PosInf, height = PosInf, quality = 90, iteration = i,
      buffer = Some [], actualSize = Some 0\<rparr>
   = Continue \<lparr>width = NaN, height = Fin 32767, quality = 75, iteration = Suc i,
        buffer = Some [], actualSize = Some 0\<rparr>"
  unfolding iterate_def ceilingCheck_empty_2 target_jpg54x2
  by (simp add: maxDimension_def renderRequest_def
        generateImageWithText_def validateDimensions_def jpg54x2_def jpg_facts emptyEncoder_def
        getImageSize_def isWithinTolerance_def toleranceOf_def less_eq_number_def
        atCeiling_def adjustQuality_def Let_def overflow_def)

lemma run_empty:
  "generateImageWithTargetSize (Some emptyEncoder) jpg54x2 =
     \<lparr>calls = [\<lparr>img_width = Fin 8192, img_height = Fin 4608, img_format = ''jpg'',
                img_sizeMB = 54, img_backgroundColor = ''#ffffff'',
                img_textColor = ''#000000'', img_quality = 90\<rparr>,
               \<lparr>img_width = NaN, img_height = Fin 32767, img_format = ''jpg'',
                img_sizeMB = 54, img_backgroundColor = ''#ffffff'',
                img_textColor = ''#000000'', img_quality = 70\<rparr>],
      warned = True,
      result = Inr \<lparr>out_buffer = Some [], out_width = NaN,
                    out_height = Fin 32767, out_actualSizeBytes = Some 0,
                    out_actualSizeMB = Fin 0, out_targetSizeMB = 54, out_iterations = 3,
                    out_format = ''jpg'', out_quality = Some 75\<rparr>\<rparr>"
proof -
  have m: "maxIterationsOf jpg54x2 = 2" by (simp add: maxIterationsOf_def jpg54x2_def)
  have "loop (Some emptyEncoder) jpg54x2 []
          \<lparr>width = Fin 8192, height = Fin 4608, quality = 90, iteration = 0,
           buffer = None, actualSize = None\<rparr>
        = ([renderRequest jpg54x2 \<lparr>width = Fin 8192, height = Fin 4608, quality = 90,
                                  iteration = 0, buffer = None, actualSize = None\<rparr>,
            renderRequest jpg54x2 \<lparr>width = NaN, height = Fin 32767, quality = 70,
                                  iteration = 1, buffer = Some [], actualSize = Some 0\<rparr>],
           Inr \<lparr>width = NaN, height = Fin 32767, quality = 75, iteration = 2,
                buffer = Some [], actualSize = Some 0\<rparr>)"
    apply (subst loop_unfold)
    apply (simp add: iterate_empty_1 m)
    apply (subst loop_unfold)
    apply (simp add: iterate_empty_2 ceilingCheck_empty_2 m)
    apply (subst loop_unfold)
    apply (simp add: m ceilingCheck_def maxDimension_def)
    done
  then show ?thesis
    unfolding generateImageWithTargetSize_def estimate_jpg54x2
    by (simp add: jpg54x2_def jpg_facts renderRequest_def maxIterationsOf_def
          backgroundColorOf_def textColorOf_def bytesToMB_def overflow_def)
qed

text \<open>
  The PNG whose target overflows. The target in bytes is \<^verbatim>\<open>Infinity\<close> and the estimate
  32767 by 32767. No size is within the tolerance of \<^verbatim>\<open>Infinity\<close>; the size ratio of the
  first adjustment is \<^verbatim>\<open>Infinity\<close>, and the second request is made with the width
  \<^verbatim>\<open>NaN\<close>.
\<close>

lemma target_pngHuge: "targetSizeBytesOf pngHuge = PosInf"
proof -
  have "0 < targetSizeMB pngHuge" by (simp add: pngHuge_def)
  moreover have "\<not> finiteTarget pngHuge"
    by (simp add: finiteTarget_def pngHuge_def overflow_def)
  ultimately show ?thesis using targetSizeBytesOf_cases [of pngHuge] by simp
qed

lemma estimate_pngHuge:
  "estimateInitialDimensions (targetSizeBytesOf pngHuge) (format pngHuge)
     = Dimensions (Fin 32767) (Fin 32767)"
  unfolding target_pngHuge
  by (simp add: estimateInitialDimensions_def pngHuge_def png_facts compressionFactors_def
        factorOr_def Let_def maxDimension_def overflow_def signedInf_def)

lemma iterate_pngHuge_1:
  "iterate (Some paddedEncoder) pngHuge
     \<lparr>width = Fin 32767, height = Fin 32767, quality = 90, iteration = 0,
      buffer = None, actualSize = None\<rparr>
   = Continue \<lparr>width = PosInf, height = PosInf, quality = 90, iteration = 1,
        buffer = Some (replicate 1572864 0), actualSize = Some 1572864\<rparr>"
  unfolding iterate_def target_pngHuge
  by (simp add: ceilingCheck_def maxDimension_def renderRequest_def
        generateImageWithText_def validateDimensions_def pngHuge_def png_facts paddedEncoder_def
        getImageSize_def isWithinTolerance_def toleranceOf_def
        atCeiling_def adjustDimensions_def Let_def overflow_def signedInf_def)

lemma ceilingCheck_pngHuge_2:
  "ceilingCheck pngHuge
     \<lparr>width = PosInf, height = PosInf, quality = 90, iteration = i,
      buffer = Some (replicate 1572864 0), actualSize = Some 1572864\<rparr>
   = \<lparr>width = NaN, height = Fin 32767, quality = 90, iteration = i,
      buffer = Some (replicate 1572864 0), actualSize = Some 1572864\<rparr>"
  unfolding ceilingCheck_def target_pngHuge
  by (simp add: maxDimension_def Let_def pngHuge_def png_facts)

lemma iterate_pngHuge_2:
  "iterate (Some paddedEncoder) pngHuge
     \<lparr>width = PosInf, height = PosInf, quality = 90, iteration = i,
      buffer = Some (replicate 1572864 0), actualSize = Some 1572864\<rparr>
   = Continue \<lparr>width = NaN, height = PosInf, quality = 90, iteration = Suc i,
        buffer = Some (replicate 1572864 0), actualSize = Some 1572864\<rparr>"
  unfolding iterate_def ceilingCheck_pngHuge_2 target_pngHuge
  by (simp add: maxDimension_def renderRequest_def
        generateImageWithText_def validateDimensions_def pngHuge_def png_facts paddedEncoder_def
        getImageSize_def isWithinTolerance_def toleranceOf_def less_eq_number_def
        atCeiling_def adjustDimensions_def Let_def overflow_def signedInf_def)

lemma run_pngHuge:
  "generateImageWithTargetSize (Some paddedEncoder) pngHuge =
     \<lparr>calls = [\<lparr>img_width = Fin 32767, img_height = Fin 32767, img_format = ''png'',
                img_sizeMB = 2 ^ 1004, img_backgroundColor = ''#ffffff'',
                img_textColor = ''#000000'', img_quality = 90\<rparr>,
               \<lparr>img_width = NaN, img_height = Fin 32767, img_format = ''png'',
                img_sizeMB = 2 ^ 1004, img_backgroundColor = ''#ffffff'',
                img_textColor = ''#000000'', img_quality = 90\<rparr>],
      warned = True,
      result = Inr \<lparr>out_buffer = Some (replicate 1572864 0), out_width = NaN,
                    out_height = PosInf, out_actualSizeBytes = Some 1572864,
                    out_actualSizeMB = Fin 1.5, out_targetSizeMB = 2 ^ 1004,
                    out_iterations = 3, out_format = ''png'', out_quality = None\<rparr>\<rparr>"
proof -
  have m: "maxIterationsOf pngHuge = 2" by (simp add: maxIterationsOf_def pngHuge_def)
  have "loop (Some paddedEncoder) pngHuge []
          \<lparr>width = Fin 32767, height = Fin 32767, quality = 90, iteration = 0,
           buffer = None, actualSize = None\<rparr>
        = ([renderRequest pngHuge \<lparr>width = Fin 32767, height = Fin 32767, quality = 90,
                                  iteration = 0, buffer = None, actualSize = None\<rparr>,
            renderRequest pngHuge \<lparr>width = NaN, height = Fin 32767, quality = 90,
                                  iteration = 1, buffer = Some (replicate 1572864 0),
                                  actualSize = Some 1572864\<rparr>],
           Inr \<lparr>width = NaN, height = PosInf, quality = 90, iteration = 2,
                buffer = Some (replicate 1572864 0), actualSize = Some 1572864\<rparr>)"
    apply (subst loop_unfold)
    apply (simp add: iterate_pngHuge_1 m)
    apply (subst loop_unfold)
    apply (simp add: iterate_pngHuge_2 ceilingCheck_pngHuge_2 m)
    apply (subst loop_unfold)
    apply (simp add: m ceilingCheck_def maxDimension_def)
    done
  then show ?thesis
    unfolding generateImageWithTargetSize_def estimate_pngHuge
    by (simp add: pngHuge_def png_facts renderRequest_def maxIterationsOf_def
          backgroundColorOf_def textColorOf_def bytesToMB_def overflow_def)
qed

subsection \<open>The floor and the ceiling\<close>

text \<open>
  C6, as amended. In every call whose target in bytes is finite and whose renders are
  never empty, every request made to the renderer has a width and a height between 50 and
  32767, and the width and height returned are at least 50. More precisely, for every
  state \<open>s\<close> the loop is in at the top of an iteration (\<^const>\<open>reachable\<close>: the estimate,
  and whatever an adjustment leaves), width and height are at least 50, and after the
  ceiling check, where the render happens, they are between 50 and 32767; dimensions
  above the ceiling have been replaced by 32767 for the larger one and, for the other, by
  an integer less than 1 away from the value in proportion.
\<close>

theorem dimensions_within_bounds:
  assumes "neverEmpty Jimp" and "finiteTarget c"
  shows
  "(\<forall>q \<in> set (calls (generateImageWithTargetSize Jimp c)).
      Fin 50 \<le> img_width q \<and> img_width q \<le> Fin 32767
    \<and> Fin 50 \<le> img_height q \<and> img_height q \<le> Fin 32767)
   \<and> (\<forall>out. result (generateImageWithTargetSize Jimp c) = Inr out \<longrightarrow>
          Fin 50 \<le> out_width out \<and> Fin 50 \<le> out_height out)
   \<and> (\<forall>s. reachable Jimp c s \<longrightarrow>
          Fin 50 \<le> width s \<and> Fin 50 \<le> height s
          \<and> Fin 50 \<le> width (ceilingCheck c s) \<and> width (ceilingCheck c s) \<le> Fin 32767
          \<and> Fin 50 \<le> height (ceilingCheck c s) \<and> height (ceilingCheck c s) \<le> Fin 32767
          \<and> (width s \<le> Fin 32767 \<and> height s \<le> Fin 32767 \<longrightarrow> ceilingCheck c s = s)
          \<and> (\<exists>W H :: int.
                width s = Fin (real_of_int W) \<and> height s = Fin (real_of_int H)
              \<and> (32767 < W \<and> H < W \<longrightarrow>
                   width (ceilingCheck c s) = Fin 32767 \<and>
                   (\<exists>h' :: int. height (ceilingCheck c s) = Fin (real_of_int h')
                      \<and> \<bar>real_of_int h' - 32767 * real_of_int H / real_of_int W\<bar> < 1))
              \<and> (32767 < H \<and> W \<le> H \<longrightarrow>
                   height (ceilingCheck c s) = Fin 32767 \<and>
                   (\<exists>w' :: int. width (ceilingCheck c s) = Fin (real_of_int w')
                      \<and> \<bar>real_of_int w' - 32767 * real_of_int W / real_of_int H\<bar> < 1))))"
proof (intro conjI allI impI)
  let ?run = "generateImageWithTargetSize Jimp c"
  have run: "(\<forall>q \<in> set (calls ?run). requestInRange q)
        \<and> (\<forall>out. result ?run = Inr out \<longrightarrow>
              Fin 50 \<le> out_width out \<and> Fin 50 \<le> out_height out)"
  proof (cases "0 < targetSizeMB c \<and> isFormatSupported (format c)")
    case False
    then show ?thesis by (auto simp: generateImageWithTargetSize_def)
  next
    case True
    from targetSizeBytesOf_finite [OF _ assms(2)] True obtain T where
      T: "targetSizeBytesOf c = Fin T" "0 < T" "T < overflow" by blast
    obtain w h where e: "estimateInitialDimensions (targetSizeBytesOf c) (format c)
                           = Dimensions w h"
      by (cases "estimateInitialDimensions (targetSizeBytesOf c) (format c)")
    let ?s0 = "\<lparr>width = w, height = h, quality = 90, iteration = 0,
                buffer = None, actualSize = None\<rparr>"
    obtain cs r where l: "loop Jimp c [] ?s0 = (cs, r)"
      by (cases "loop Jimp c [] ?s0")
    have "scaledFromRange ?s0"
      using e True T
      by (intro intRange_scaledFromRange initial_intRange [of T "format c"]) simp_all
    with l assms(1) T have "(\<forall>q \<in> set cs. requestInRange q)
        \<and> (\<forall>s'. r = Inr s' \<longrightarrow> Fin 50 \<le> width s' \<and> Fin 50 \<le> height s')"
      by (intro loop_inRange [of Jimp c "[]" ?s0 cs r T]) simp_all
    with e l True show ?thesis
      by (cases r) (auto simp: generateImageWithTargetSize_def)
  qed
  show "\<forall>q \<in> set (calls ?run).
      Fin 50 \<le> img_width q \<and> img_width q \<le> Fin 32767
    \<and> Fin 50 \<le> img_height q \<and> img_height q \<le> Fin 32767"
    using run by (simp add: requestInRange_def)
  show "Fin 50 \<le> out_width out" "Fin 50 \<le> out_height out" if "result ?run = Inr out" for out
    using run that by simp_all
next
  fix s assume r: "reachable Jimp c s"
  then have sc: "scaledFromRange s" using assms by (rule reachable_scaled)
  then have "inRange (ceilingCheck c s)"
    by (intro intRange_inRange ceilingCheck_inRange)
  then show "Fin 50 \<le> width (ceilingCheck c s)" "width (ceilingCheck c s) \<le> Fin 32767"
    "Fin 50 \<le> height (ceilingCheck c s)" "height (ceilingCheck c s) \<le> Fin 32767"
    by (simp_all add: inRange_def maxDimension_def)
  show "Fin 50 \<le> width s" "Fin 50 \<le> height s"
    using scaledFromRange_floor [OF sc] by simp_all
  show "ceilingCheck c s = s" if "width s \<le> Fin 32767 \<and> height s \<le> Fin 32767"
  proof -
    have "\<not> a > maxDimension" if "a \<le> Fin 32767" for a
      using that by (cases a) (auto simp: maxDimension_def less_eq_number_def)
    with that show ?thesis by (intro ceilingCheck_unchanged) simp_all
  qed
  show "\<exists>W H :: int.
                width s = Fin (real_of_int W) \<and> height s = Fin (real_of_int H)
              \<and> (32767 < W \<and> H < W \<longrightarrow>
                   width (ceilingCheck c s) = Fin 32767 \<and>
                   (\<exists>h' :: int. height (ceilingCheck c s) = Fin (real_of_int h')
                      \<and> \<bar>real_of_int h' - 32767 * real_of_int H / real_of_int W\<bar> < 1))
              \<and> (32767 < H \<and> W \<le> H \<longrightarrow>
                   height (ceilingCheck c s) = Fin 32767 \<and>
                   (\<exists>w' :: int. width (ceilingCheck c s) = Fin (real_of_int w')
                      \<and> \<bar>real_of_int w' - 32767 * real_of_int W / real_of_int H\<bar> < 1))"
  proof -
    from ceilingCheck_rescales [OF sc, of c] obtain W H :: int where
      WH: "width s = Fin (real_of_int W)" "height s = Fin (real_of_int H)"
      and wide: "32767 < W \<and> H < W \<longrightarrow>
              width (ceilingCheck c s) = Fin 32767 \<and>
              height (ceilingCheck c s)
                = Fin (real_of_int (round (32767 * real_of_int H / real_of_int W)))"
      and tall: "32767 < H \<and> W \<le> H \<longrightarrow>
              height (ceilingCheck c s) = Fin 32767 \<and>
              width (ceilingCheck c s)
                = Fin (real_of_int (round (32767 * real_of_int W / real_of_int H)))"
      by blast
    have near: "\<bar>real_of_int (round y) - y\<bar> < 1" for y :: real
      using of_int_round_abs_le [of y] by simp
    show ?thesis
      using WH wide tall near by (intro exI [of _ W] exI [of _ H]) blast
  qed
qed

theorem dimensions_within_bounds_witness:
  "neverEmpty (Some paddedEncoder) \<and> finiteTarget jpg54
   \<and> calls (generateImageWithTargetSize (Some paddedEncoder) jpg54) =
     [\<lparr>img_width = Fin 8192, img_height = Fin 4608, img_format = ''jpg'', img_sizeMB = 54,
       img_backgroundColor = ''#ffffff'', img_textColor = ''#000000'', img_quality = 90\<rparr>]
   \<and> reachable (Some paddedEncoder) jpg54
        \<lparr>width = Fin 49152, height = Fin 27648, quality = 90, iteration = 1,
         buffer = Some (replicate 1572864 0), actualSize = Some 1572864\<rparr>
   \<and> width (ceilingCheck jpg54
        \<lparr>width = Fin 49152, height = Fin 27648, quality = 90, iteration = 1,
         buffer = Some (replicate 1572864 0), actualSize = Some 1572864\<rparr>) = Fin 32767
   \<and> height (ceilingCheck jpg54
        \<lparr>width = Fin 49152, height = Fin 27648, quality = 90, iteration = 1,
         buffer = Some (replicate 1572864 0), actualSize = Some 1572864\<rparr>) = Fin 18431"
  using dimensions_within_bounds [OF neverEmpty_padded finiteTarget_jpg54] reachable_jpg54
    neverEmpty_padded finiteTarget_jpg54
  by (simp add: run_jpg54 ceilingCheck_jpg54)

text \<open>
  C6 as stated fails for a render that is empty and for a target that overflows: in both
  runs the second request to the renderer is made with a width of \<^verbatim>\<open>NaN\<close>, which is
  neither at least 50 nor at most 32767, and that width is returned.
\<close>

theorem nonfinite_dimensions_counterexample:
  "map img_width (calls (generateImageWithTargetSize (Some emptyEncoder) jpg54x2))
     = [Fin 8192, NaN]
   \<and> map_sum id out_width (result (generateImageWithTargetSize (Some emptyEncoder) jpg54x2))
       = Inr NaN
   \<and> map img_width (calls (generateImageWithTargetSize (Some paddedEncoder) pngHuge))
       = [Fin 32767, NaN]
   \<and> map_sum id out_width (result (generateImageWithTargetSize (Some paddedEncoder) pngHuge))
       = Inr NaN
   \<and> map_sum id out_height (result (generateImageWithTargetSize (Some paddedEncoder) pngHuge))
       = Inr PosInf
   \<and> \<not> Fin 50 \<le> NaN \<and> \<not> NaN \<le> Fin 32767"
  by (simp add: run_empty run_pngHuge less_eq_number_def)

subsection \<open>The quality search\<close>

lemma loop_calls:
  "loop Jimp c cs s = (cs', r) \<Longrightarrow>
   (if int (iteration s) < maxIterationsOf c
    then \<exists>ext. cs' = cs @ renderRequest c (ceilingCheck c s) # ext
    else cs' = cs)"
proof (induction Jimp c cs s rule: loop.induct)
  case (1 Jimp c cs s)
  show ?case
  proof (cases "int (iteration s) < maxIterationsOf c")
    case False
    with "1.prems" show ?thesis by (simp add: loop_unfold [of Jimp c cs s])
  next
    case True
    show ?thesis
    proof (cases "iterate Jimp c s")
      case (Continue s')
      with "1.prems" True
      have "loop Jimp c (cs @ [renderRequest c (ceilingCheck c s)]) s' = (cs', r)"
        by (simp add: loop_unfold [of Jimp c cs s])
      from "1.IH" [OF True Continue this] True show ?thesis
        by (auto split: if_splits)
    next
      case (Break s')
      with "1.prems" True show ?thesis by (auto simp: loop_unfold [of Jimp c cs s])
    next
      case (Throw e)
      with "1.prems" True show ?thesis by (auto simp: loop_unfold [of Jimp c cs s])
    qed
  qed
qed

lemma qualitySearch_ceilingCheck: "qualitySearch c s \<Longrightarrow> ceilingCheck c s = s"
  by (simp add: qualitySearch_def ceilingCheck_unchanged)

lemma atCeiling_qualitySearch:
  "atCeiling c (ceilingCheck c s) \<Longrightarrow> qualitySearch c (ceilingCheck c s)"
  using ceilingCheck_upper [of c s] by (simp add: qualitySearch_def)

lemma iterate_quality_step:
  assumes "atCeiling c (ceilingCheck c s)" and "iterate Jimp c s = Continue s'"
  shows "width s' = width (ceilingCheck c s) \<and> height s' = height (ceilingCheck c s)
       \<and> (\<exists>buf. generateImageWithText Jimp (renderRequest c (ceilingCheck c s)) = Inr buf
            \<and> quality s' =
                (if Fin (real (length buf)) < targetSizeBytesOf c
                 then min 100 (quality (ceilingCheck c s) + 5)
                 else max 10 (quality (ceilingCheck c s) - 5)))
       \<and> qualitySearch c s'"
proof -
  from assms(2) obtain buf where
    buf: "generateImageWithText Jimp (renderRequest c (ceilingCheck c s)) = Inr buf"
    by (auto simp: iterate_def Let_def split: sum.splits)
  with assms have s': "s' = (ceilingCheck c s)
      \<lparr>buffer := Some buf, actualSize := Some (length buf),
       quality := adjustQuality (Fin (real (length buf))) (targetSizeBytesOf c) (quality (ceilingCheck c s)),
       iteration := iteration s + 1\<rparr>"
    by (simp add: iterate_def Let_def getImageSize_def split: if_splits)
  have "qualitySearch c s'"
    using atCeiling_qualitySearch [OF assms(1)]
    by (simp add: s' qualitySearch_def atCeiling_def)
  with buf show ?thesis
    by (auto simp: s' adjustQuality_def)
qed

lemma loop_qualitySearch:
  assumes "loop Jimp c cs s = (cs', r)" and "qualitySearch c s"
  shows "\<exists>ext. cs' = cs @ ext
           \<and> (\<forall>q \<in> set ext. img_width q = width s \<and> img_height q = height s)
           \<and> (\<forall>s'. r = Inr s' \<longrightarrow> width s' = width s \<and> height s' = height s)"
  using assms
proof (induction Jimp c cs s rule: loop.induct)
  case (1 Jimp c cs s)
  have same: "ceilingCheck c s = s"
    using "1.prems"(2) by (rule qualitySearch_ceilingCheck)
  have at: "atCeiling c (ceilingCheck c s)"
    using "1.prems"(2) by (simp add: same qualitySearch_def)
  have req: "img_width (renderRequest c s) = width s" "img_height (renderRequest c s) = height s"
    by (simp_all add: renderRequest_def)
  show ?case
  proof (cases "int (iteration s) < maxIterationsOf c")
    case False
    with "1.prems"(1) have "cs' = cs" "r = Inr s"
      by (auto simp: loop_unfold [of Jimp c cs s])
    then show ?thesis by (intro exI [of _ "[]"]) simp
  next
    case True
    show ?thesis
    proof (cases "iterate Jimp c s")
      case (Continue s')
      from iterate_quality_step [OF at Continue]
      have keep: "width s' = width s" "height s' = height s" and q: "qualitySearch c s'"
        by (simp_all add: same)
      have "loop Jimp c (cs @ [renderRequest c (ceilingCheck c s)]) s' = (cs', r)"
        using "1.prems"(1) True Continue by (simp add: loop_unfold [of Jimp c cs s])
      from "1.IH" [OF True Continue this q] obtain ext where
        e: "cs' = (cs @ [renderRequest c (ceilingCheck c s)]) @ ext"
        "\<forall>q \<in> set ext. img_width q = width s' \<and> img_height q = height s'"
        "\<forall>t. r = Inr t \<longrightarrow> width t = width s' \<and> height t = height s'"
        by blast
      have "cs' = cs @ (renderRequest c s # ext)"
        using e(1) unfolding same by simp
      moreover have "\<forall>q \<in> set (renderRequest c s # ext).
                        img_width q = width s \<and> img_height q = height s"
        using e(2) req unfolding keep by simp
      moreover have "\<forall>t. r = Inr t \<longrightarrow> width t = width s \<and> height t = height s"
        using e(3) unfolding keep .
      ultimately show ?thesis by blast
    next
      case (Break s')
      then have "width s' = width s" "height s' = height s"
        by (auto simp: iterate_def Let_def same split: sum.splits if_splits dimensions.splits)
      moreover have "cs' = cs @ [renderRequest c s]" "r = Inr s'"
        using "1.prems"(1) True Break by (auto simp: loop_unfold [of Jimp c cs s] same)
      ultimately show ?thesis
        using req by (intro exI [of _ "[renderRequest c s]"]) simp
    next
      case (Throw e)
      then have "cs' = cs @ [renderRequest c s]" "r = Inl e"
        using "1.prems"(1) True by (auto simp: loop_unfold [of Jimp c cs s] same)
      then show ?thesis
        using req by (intro exI [of _ "[renderRequest c s]"]) simp
    qed
  qed
qed

lemma iterate_quality_branch:
  assumes at: "atCeiling c (ceilingCheck c s)"
    and buf: "generateImageWithText Jimp (renderRequest c (ceilingCheck c s)) = Inr buf"
    and miss: "\<not> isWithinTolerance (Fin (real (length buf))) (targetSizeBytesOf c) (toleranceOf c)"
  shows "iterate Jimp c s =
           Continue ((ceilingCheck c s)
             \<lparr>buffer := Some buf, actualSize := Some (length buf),
              quality := (if Fin (real (length buf)) < targetSizeBytesOf c
                          then min 100 (quality (ceilingCheck c s) + 5)
                          else max 10 (quality (ceilingCheck c s) - 5)),
              iteration := iteration s + 1\<rparr>)"
  using assms by (simp add: iterate_def Let_def getImageSize_def adjustQuality_def)

text \<open>
  C7. For jpg/jpeg, a render made with a dimension at the ceiling (the condition of line
  420) that misses the tolerance is followed by an adjustment of the quality only: plus 5,
  at most 100, when the buffer is smaller than the target, minus 5, at least 10, otherwise.
  Width and height stay as rendered, the counter goes up by one, and while the budget
  lasts the loop goes on from that state, which is again one of the quality search. The
  ceiling check leaves such a state alone (no new seed, no new dimensions), and so every
  later request of the call has the same width and height, as has the state in which the
  loop ends.
\<close>

theorem quality_search_is_absorbing:
  "(\<forall>s buf. atCeiling c (ceilingCheck c s)
        \<and> generateImageWithText Jimp (renderRequest c (ceilingCheck c s)) = Inr buf
        \<and> \<not> isWithinTolerance (Fin (real (length buf))) (targetSizeBytesOf c) (toleranceOf c) \<longrightarrow>
        (\<exists>s'. iterate Jimp c s = Continue s'
           \<and> width s' = width (ceilingCheck c s) \<and> height s' = height (ceilingCheck c s)
           \<and> quality s' =
               (if Fin (real (length buf)) < targetSizeBytesOf c
                then min 100 (quality (ceilingCheck c s) + 5)
                else max 10 (quality (ceilingCheck c s) - 5))
           \<and> iteration s' = iteration s + 1
           \<and> buffer s' = Some buf \<and> actualSize s' = Some (length buf)
           \<and> qualitySearch c s'
           \<and> (int (iteration s) < maxIterationsOf c \<longrightarrow>
                (\<forall>cs. loop Jimp c cs s
                        = loop Jimp c (cs @ [renderRequest c (ceilingCheck c s)]) s'))))
   \<and> (\<forall>s. qualitySearch c s \<longrightarrow> ceilingCheck c s = s \<and> atCeiling c (ceilingCheck c s))
   \<and> (\<forall>s cs cs' r. qualitySearch c s \<and> loop Jimp c cs s = (cs', r) \<longrightarrow>
        (\<forall>q \<in> set (drop (length cs) cs'). img_width q = width s \<and> img_height q = height s)
      \<and> (\<forall>s'. r = Inr s' \<longrightarrow> width s' = width s \<and> height s' = height s))"
proof (intro conjI allI impI)
  fix s buf
  assume a: "atCeiling c (ceilingCheck c s)
        \<and> generateImageWithText Jimp (renderRequest c (ceilingCheck c s)) = Inr buf
        \<and> \<not> isWithinTolerance (Fin (real (length buf))) (targetSizeBytesOf c) (toleranceOf c)"
  define s' where "s' = (ceilingCheck c s)
             \<lparr>buffer := Some buf, actualSize := Some (length buf),
              quality := (if Fin (real (length buf)) < targetSizeBytesOf c
                          then min 100 (quality (ceilingCheck c s) + 5)
                          else max 10 (quality (ceilingCheck c s) - 5)),
              iteration := iteration s + 1\<rparr>"
  have it: "iterate Jimp c s = Continue s'"
    unfolding s'_def using a by (intro iterate_quality_branch) simp_all
  have q: "qualitySearch c s'"
    using iterate_quality_step [of c s Jimp s'] a it by simp
  have l: "loop Jimp c cs s = loop Jimp c (cs @ [renderRequest c (ceilingCheck c s)]) s'"
    if "int (iteration s) < maxIterationsOf c" for cs
    using that it by (simp add: loop_unfold [of Jimp c cs s])
  show "\<exists>s'. iterate Jimp c s = Continue s'
           \<and> width s' = width (ceilingCheck c s) \<and> height s' = height (ceilingCheck c s)
           \<and> quality s' =
               (if Fin (real (length buf)) < targetSizeBytesOf c
                then min 100 (quality (ceilingCheck c s) + 5)
                else max 10 (quality (ceilingCheck c s) - 5))
           \<and> iteration s' = iteration s + 1
           \<and> buffer s' = Some buf \<and> actualSize s' = Some (length buf)
           \<and> qualitySearch c s'
           \<and> (int (iteration s) < maxIterationsOf c \<longrightarrow>
                (\<forall>cs. loop Jimp c cs s
                        = loop Jimp c (cs @ [renderRequest c (ceilingCheck c s)]) s'))"
    using it q l by (intro exI [of _ s']) (simp add: s'_def)
next
  fix s assume q: "qualitySearch c s"
  then show "ceilingCheck c s = s" by (rule qualitySearch_ceilingCheck)
  with q show "atCeiling c (ceilingCheck c s)" by (simp add: qualitySearch_def)
next
  fix s cs cs' r assume a: "qualitySearch c s \<and> loop Jimp c cs s = (cs', r)"
  then obtain ext where ext: "cs' = cs @ ext"
    "\<forall>q \<in> set ext. img_width q = width s \<and> img_height q = height s"
    "\<forall>s'. r = Inr s' \<longrightarrow> width s' = width s \<and> height s' = height s"
    using loop_qualitySearch [of Jimp c cs s cs' r] by blast
  show "\<forall>q \<in> set (drop (length cs) cs'). img_width q = width s \<and> img_height q = height s"
    using ext(1,2) by simp
  show "width s' = width s" "height s' = height s" if "r = Inr s'" for s'
    using ext(3) that by simp_all
qed


lemma target_jpg864x3: "targetSizeBytesOf jpg864x3 = Fin 905969664"
  by (simp add: targetSizeBytesOf_def mbToBytes_def jpg864x3_def overflow_def)

lemma iterate_jpg864x3:
  "iterate (Some paddedEncoder) jpg864x3
     \<lparr>width = Fin 32767, height = Fin 18431, quality = q, iteration = i, buffer = b, actualSize = a\<rparr>
   = Continue \<lparr>width = Fin 32767, height = Fin 18431, quality = min 100 (q + 5), iteration = i + 1,
        buffer = Some (replicate 1572864 0), actualSize = Some 1572864\<rparr>"
  unfolding iterate_def target_jpg864x3
  by (simp add: ceilingCheck_def maxDimension_def renderRequest_def
        generateImageWithText_def validateDimensions_def jpg864x3_def jpg_facts paddedEncoder_def
        getImageSize_def isWithinTolerance_def toleranceOf_def
        atCeiling_def adjustQuality_def Let_def overflow_def)

lemma loop_jpg864x3:
  "loop (Some paddedEncoder) jpg864x3 []
     \<lparr>width = Fin 32767, height = Fin 18431, quality = 90, iteration = 0,
      buffer = None, actualSize = None\<rparr>
   = (map (\<lambda>q. \<lparr>img_width = Fin 32767, img_height = Fin 18431, img_format = ''jpg'',
                 img_sizeMB = 864, img_backgroundColor = ''#ffffff'',
                 img_textColor = ''#000000'', img_quality = q\<rparr>) [90, 95, 100],
      Inr \<lparr>width = Fin 32767, height = Fin 18431, quality = 100, iteration = 3,
           buffer = Some (replicate 1572864 0), actualSize = Some 1572864\<rparr>)"
proof -
  have m: "maxIterationsOf jpg864x3 = 3" by (simp add: maxIterationsOf_def jpg864x3_def)
  have cc: "ceilingCheck jpg864x3
              \<lparr>width = Fin 32767, height = Fin 18431, quality = q, iteration = i, buffer = b,
               actualSize = a\<rparr>
            = \<lparr>width = Fin 32767, height = Fin 18431, quality = q, iteration = i, buffer = b,
               actualSize = a\<rparr>" for q i b a
    by (simp add: ceilingCheck_def maxDimension_def)
  have rr: "renderRequest jpg864x3
              \<lparr>width = Fin 32767, height = Fin 18431, quality = q, iteration = i, buffer = b,
               actualSize = a\<rparr>
            = \<lparr>img_width = Fin 32767, img_height = Fin 18431, img_format = ''jpg'',
                 img_sizeMB = 864, img_backgroundColor = ''#ffffff'',
                 img_textColor = ''#000000'', img_quality = q\<rparr>" for q i b a
    by (simp add: renderRequest_def jpg864x3_def backgroundColorOf_def textColorOf_def)
  show ?thesis
    apply (subst loop_unfold)
    apply (simp add: iterate_jpg864x3 m cc rr)
    apply (subst loop_unfold)
    apply (simp add: iterate_jpg864x3 m cc rr)
    apply (subst loop_unfold)
    apply (simp add: iterate_jpg864x3 m cc rr)
    apply (subst loop_unfold)
    apply (simp add: m)
    done
qed

theorem quality_search_is_absorbing_witness:
  "qualitySearch jpg864x3
     \<lparr>width = Fin 32767, height = Fin 18431, quality = 90, iteration = 0,
      buffer = None, actualSize = None\<rparr>
   \<and> (\<exists>s'. iterate (Some paddedEncoder) jpg864x3
              \<lparr>width = Fin 32767, height = Fin 18431, quality = 90, iteration = 0,
               buffer = None, actualSize = None\<rparr> = Continue s'
          \<and> width s' = Fin 32767 \<and> height s' = Fin 18431 \<and> quality s' = 95 \<and> iteration s' = 1
          \<and> qualitySearch jpg864x3 s')
   \<and> map (\<lambda>q. (img_width q, img_height q, img_quality q))
        (fst (loop (Some paddedEncoder) jpg864x3 []
               \<lparr>width = Fin 32767, height = Fin 18431, quality = 90, iteration = 0,
                buffer = None, actualSize = None\<rparr>))
      = [(Fin 32767, Fin 18431, 90), (Fin 32767, Fin 18431, 95), (Fin 32767, Fin 18431, 100)]
   \<and> list_all (\<lambda>q. img_width q = Fin 32767 \<and> img_height q = Fin 18431)
        (fst (loop (Some paddedEncoder) jpg864x3 []
               \<lparr>width = Fin 32767, height = Fin 18431, quality = 90, iteration = 0,
                buffer = None, actualSize = None\<rparr>))"
proof -
  define s0 where "s0 = \<lparr>width = Fin 32767, height = Fin 18431, quality = 90, iteration = 0,
      buffer = None :: buffer option, actualSize = None :: nat option\<rparr>"
  have q0: "qualitySearch jpg864x3 s0"
    by (simp add: s0_def qualitySearch_def atCeiling_def maxDimension_def jpg864x3_def jpg_facts)
  have cc: "ceilingCheck jpg864x3 s0 = s0"
    by (simp add: s0_def ceilingCheck_def maxDimension_def)
  have at: "atCeiling jpg864x3 (ceilingCheck jpg864x3 s0)"
    using q0 unfolding cc by (simp add: qualitySearch_def)
  have buf: "generateImageWithText (Some paddedEncoder) (renderRequest jpg864x3 (ceilingCheck jpg864x3 s0))
               = Inr (replicate 1572864 0)"
    unfolding cc
    by (simp add: s0_def renderRequest_def generateImageWithText_def validateDimensions_def
          maxDimension_def jpg864x3_def jpg_facts paddedEncoder_def)
  have miss: "\<not> isWithinTolerance (Fin (real (length (replicate 1572864 (0 :: 8 word)))))
                 (targetSizeBytesOf jpg864x3) (toleranceOf jpg864x3)"
    unfolding target_jpg864x3
    by (simp add: isWithinTolerance_def toleranceOf_def jpg864x3_def overflow_def)
  have small: "Fin (real (length (replicate 1572864 (0 :: 8 word)))) < targetSizeBytesOf jpg864x3"
    unfolding target_jpg864x3 by simp
  from quality_search_is_absorbing [of jpg864x3 "Some paddedEncoder"]
  have step: "\<forall>s buf. atCeiling jpg864x3 (ceilingCheck jpg864x3 s)
        \<and> generateImageWithText (Some paddedEncoder) (renderRequest jpg864x3 (ceilingCheck jpg864x3 s)) = Inr buf
        \<and> \<not> isWithinTolerance (Fin (real (length buf))) (targetSizeBytesOf jpg864x3) (toleranceOf jpg864x3) \<longrightarrow>
        (\<exists>s'. iterate (Some paddedEncoder) jpg864x3 s = Continue s'
           \<and> width s' = width (ceilingCheck jpg864x3 s) \<and> height s' = height (ceilingCheck jpg864x3 s)
           \<and> quality s' =
               (if Fin (real (length buf)) < targetSizeBytesOf jpg864x3
                then min 100 (quality (ceilingCheck jpg864x3 s) + 5)
                else max 10 (quality (ceilingCheck jpg864x3 s) - 5))
           \<and> iteration s' = iteration s + 1
           \<and> buffer s' = Some buf \<and> actualSize s' = Some (length buf)
           \<and> qualitySearch jpg864x3 s'
           \<and> (int (iteration s) < maxIterationsOf jpg864x3 \<longrightarrow>
                (\<forall>cs. loop (Some paddedEncoder) jpg864x3 cs s
                        = loop (Some paddedEncoder) jpg864x3 (cs @ [renderRequest jpg864x3 (ceilingCheck jpg864x3 s)]) s')))"
    and fixed: "\<forall>s cs cs' r. qualitySearch jpg864x3 s \<and> loop (Some paddedEncoder) jpg864x3 cs s = (cs', r) \<longrightarrow>
        (\<forall>q \<in> set (drop (length cs) cs'). img_width q = width s \<and> img_height q = height s)
      \<and> (\<forall>s'. r = Inr s' \<longrightarrow> width s' = width s \<and> height s' = height s)"
    by blast+
  from step [rule_format, of s0 "replicate 1572864 0"] at buf miss
  obtain s' where s': "iterate (Some paddedEncoder) jpg864x3 s0 = Continue s'"
    "width s' = width (ceilingCheck jpg864x3 s0)" "height s' = height (ceilingCheck jpg864x3 s0)"
    "quality s' = (if Fin (real (length (replicate 1572864 (0 :: 8 word)))) < targetSizeBytesOf jpg864x3
                then min 100 (quality (ceilingCheck jpg864x3 s0) + 5)
                else max 10 (quality (ceilingCheck jpg864x3 s0) - 5))"
    "iteration s' = iteration s0 + 1" "qualitySearch jpg864x3 s'"
    by blast
  have first: "\<exists>s'. iterate (Some paddedEncoder) jpg864x3 s0 = Continue s'
          \<and> width s' = Fin 32767 \<and> height s' = Fin 18431 \<and> quality s' = 95 \<and> iteration s' = 1
          \<and> qualitySearch jpg864x3 s'"
    using s' small unfolding cc by (intro exI [of _ s']) (simp add: s0_def)
  obtain cs' r where l: "loop (Some paddedEncoder) jpg864x3 [] s0 = (cs', r)"
    by (cases "loop (Some paddedEncoder) jpg864x3 [] s0")
  from fixed [rule_format, of s0 "[]" cs' r] q0 l
  have dims: "list_all (\<lambda>q. img_width q = Fin 32767 \<and> img_height q = Fin 18431)
                (fst (loop (Some paddedEncoder) jpg864x3 [] s0))"
    by (simp add: s0_def list_all_iff)
  have all: "map (\<lambda>q. (img_width q, img_height q, img_quality q))
        (fst (loop (Some paddedEncoder) jpg864x3 [] s0))
      = [(Fin 32767, Fin 18431, 90), (Fin 32767, Fin 18431, 95), (Fin 32767, Fin 18431, 100)]"
    unfolding s0_def loop_jpg864x3 by simp
  show ?thesis
    using q0 first all dims unfolding s0_def by (intro conjI)
qed

subsection \<open>Seeding the quality\<close>

lemma ceilingCheck_seeds:
  assumes "isJpeg (format c)" and "width s > maxDimension \<or> height s > maxDimension"
  shows "quality (ceilingCheck c s) =
           seedQuality (targetSizeBytesOf c) (width (ceilingCheck c s)) (height (ceilingCheck c s))"
  using assms by (auto simp: ceilingCheck_def Let_def)

lemma ceilingCheck_atCeiling:
  assumes "isJpeg (format c)" and "width s > maxDimension \<or> height s > maxDimension"
  shows "atCeiling c (ceilingCheck c s)"
proof -
  have m: "Math_min maxDimension maxDimension = maxDimension"
    by (simp add: maxDimension_def)
  have "width (ceilingCheck c s) = maxDimension \<or> height (ceilingCheck c s) = maxDimension"
    using assms(2) by (auto simp: ceilingCheck_def Let_def m)
  moreover have "maxDimension \<le> maxDimension" by (simp add: maxDimension_def)
  ultimately show ?thesis using assms(1) by (auto simp: atCeiling_def)
qed

lemma estimate_overflow:
  assumes "compressionFactors (toLowerCase f) \<noteq> Inherited"
  shows "estimateInitialDimensions PosInf f = Dimensions (Fin 32767) (Fin 32767)"
proof -
  have "0 < factorOf f" by (simp add: factorOf_def)
  then show ?thesis
    unfolding estimateInitialDimensions_def factorOr_factorOf [OF assms]
    by (simp add: Let_def maxDimension_def overflow_def signedInf_def)
qed

lemma estimate_le_ceiling:
  assumes "0 < targetSizeMB c" and "compressionFactors (toLowerCase (format c)) \<noteq> Inherited"
    and e: "estimateInitialDimensions (targetSizeBytesOf c) (format c) = Dimensions w h"
  shows "w \<le> Fin 32767 \<and> h \<le> Fin 32767"
proof (cases "finiteTarget c")
  case True
  from targetSizeBytesOf_finite [OF assms(1) True] obtain T where
    T: "targetSizeBytesOf c = Fin T" "0 < T" "T < overflow" by blast
  from estimate_bounds [OF T(2,3) assms(2)] e show ?thesis
    unfolding T(1) by auto
next
  case False
  then have "targetSizeBytesOf c = PosInf"
    using targetSizeBytesOf_cases [OF assms(1)] by simp
  with e have "estimateInitialDimensions PosInf (format c) = Dimensions w h" by simp
  then have "Dimensions w h = Dimensions (Fin 32767) (Fin 32767)"
    unfolding estimate_overflow [OF assms(2)] by (rule sym)
  then show ?thesis by simp
qed

lemma not_above_iff: "\<not> a > maxDimension" if "a \<le> Fin 32767"
  using that by (cases a) (auto simp: maxDimension_def less_eq_number_def)

lemma first_call:
  assumes "q \<in> set (take 1 (calls (generateImageWithTargetSize Jimp c)))"
  shows "img_quality q = 90 \<and> img_width q \<le> Fin 32767 \<and> img_height q \<le> Fin 32767"
proof -
  from assms have valid: "0 < targetSizeMB c" "isFormatSupported (format c)"
    by (auto simp: generateImageWithTargetSize_def split: if_splits)
  obtain w h where e: "estimateInitialDimensions (targetSizeBytesOf c) (format c)
                         = Dimensions w h"
    by (cases "estimateInitialDimensions (targetSizeBytesOf c) (format c)")
  let ?s0 = "\<lparr>width = w, height = h, quality = 90, iteration = 0,
              buffer = None, actualSize = None\<rparr>"
  obtain cs r where l: "loop Jimp c [] ?s0 = (cs, r)"
    by (cases "loop Jimp c [] ?s0")
  have b: "w \<le> Fin 32767" "h \<le> Fin 32767"
    using estimate_le_ceiling [OF valid(1) supported_not_inherited [OF valid(2)] e]
    by simp_all
  then have same: "ceilingCheck c ?s0 = ?s0"
    by (intro ceilingCheck_unchanged) (simp_all add: not_above_iff)
  have "calls (generateImageWithTargetSize Jimp c) = cs"
    using e l valid by (cases r) (simp_all add: generateImageWithTargetSize_def)
  with assms have "q \<in> set (take 1 cs)" by auto
  moreover have "cs = [] \<or> (\<exists>ext. cs = renderRequest c ?s0 # ext)"
    using loop_calls [OF l] unfolding same by (auto split: if_splits)
  ultimately have "q = renderRequest c ?s0" by auto
  then show ?thesis
    using b by (simp add: renderRequest_def)
qed

text \<open>
  C8, as amended. Whenever, at the top of an iteration of a jpg/jpeg request, the width or
  the height exceeds the pixel ceiling, the ceiling check seeds the quality from
  \<open>bytesPerPixel = targetSizeBytes / (width * height)\<close>, taken at the clamped dimensions,
  by the step table (above 2: 100, above 1.5: 95, above 1: 90, above 0.5: 80, otherwise
  70); the clamped dimensions are at the ceiling, so this and all later iterations adjust
  the quality and not the dimensions. The ceiling check changes nothing, and seeds nothing,
  when no dimension exceeds the ceiling. That is always so for the estimated seed
  dimensions, which the estimator has already limited to 32767: the first render uses
  quality 90, and when the seed dimensions reach the ceiling the quality search starts from
  there.
\<close>

theorem quality_seeded_above_ceiling:
  "(\<forall>s :: loop_state.
        isJpeg (format c) \<and> (width s > Fin 32767 \<or> height s > Fin 32767) \<longrightarrow>
        quality (ceilingCheck c s) =
          (if targetSizeBytesOf c
                / (width (ceilingCheck c s) * height (ceilingCheck c s)) > Fin 2
           then 100
           else if targetSizeBytesOf c
                / (width (ceilingCheck c s) * height (ceilingCheck c s)) > Fin 1.5
           then 95
           else if targetSizeBytesOf c
                / (width (ceilingCheck c s) * height (ceilingCheck c s)) > Fin 1
           then 90
           else if targetSizeBytesOf c
                / (width (ceilingCheck c s) * height (ceilingCheck c s)) > Fin 0.5
           then 80
           else 70)
      \<and> qualitySearch c (ceilingCheck c s))
   \<and> (\<forall>s :: loop_state.
        \<not> width s > Fin 32767 \<and> \<not> height s > Fin 32767 \<longrightarrow> ceilingCheck c s = s)
   \<and> (\<forall>w h. estimateInitialDimensions (targetSizeBytesOf c) (format c) = Dimensions w h \<longrightarrow>
          \<not> w > Fin 32767 \<and> \<not> h > Fin 32767
        \<and> (0 < targetSizeMB c \<and> compressionFactors (toLowerCase (format c)) \<noteq> Inherited \<longrightarrow>
             w \<le> Fin 32767 \<and> h \<le> Fin 32767)
        \<and> (isJpeg (format c) \<and> (w = Fin 32767 \<or> h = Fin 32767) \<longrightarrow>
             qualitySearch c \<lparr>width = w, height = h, quality = 90, iteration = 0,
                               buffer = None, actualSize = None\<rparr>))
   \<and> (\<forall>q \<in> set (take 1 (calls (generateImageWithTargetSize Jimp c))).
          img_quality q = 90 \<and> img_width q \<le> Fin 32767 \<and> img_height q \<le> Fin 32767)"
proof (intro conjI allI impI ballI)
  fix s :: loop_state
  assume a: "isJpeg (format c) \<and> (width s > Fin 32767 \<or> height s > Fin 32767)"
  let ?s1 = "ceilingCheck c s"
  from a have ab: "width s > maxDimension \<or> height s > maxDimension"
    by (simp add: maxDimension_def)
  from ceilingCheck_seeds [of c s] a ab
  show "quality ?s1 =
          (if targetSizeBytesOf c / (width ?s1 * height ?s1) > Fin 2 then 100
           else if targetSizeBytesOf c / (width ?s1 * height ?s1) > Fin 1.5 then 95
           else if targetSizeBytesOf c / (width ?s1 * height ?s1) > Fin 1 then 90
           else if targetSizeBytesOf c / (width ?s1 * height ?s1) > Fin 0.5 then 80
           else 70)"
    by (simp add: seedQuality_def Let_def)
  have "atCeiling c ?s1" using a ab by (intro ceilingCheck_atCeiling) simp_all
  then show "qualitySearch c ?s1" by (rule atCeiling_qualitySearch)
next
  fix s :: loop_state assume "\<not> width s > Fin 32767 \<and> \<not> height s > Fin 32767"
  then show "ceilingCheck c s = s"
    by (simp add: ceilingCheck_unchanged maxDimension_def)
next
  fix w h
  assume e: "estimateInitialDimensions (targetSizeBytesOf c) (format c) = Dimensions w h"
  from estimate_not_above [OF e] show b: "\<not> w > Fin 32767" "\<not> h > Fin 32767"
    by (simp_all add: maxDimension_def)
  show "w \<le> Fin 32767" "h \<le> Fin 32767"
    if "0 < targetSizeMB c \<and> compressionFactors (toLowerCase (format c)) \<noteq> Inherited"
    using estimate_le_ceiling [OF _ _ e] that by simp_all
  show "qualitySearch c \<lparr>width = w, height = h, quality = 90, iteration = 0,
                           buffer = None, actualSize = None\<rparr>"
    if "isJpeg (format c) \<and> (w = Fin 32767 \<or> h = Fin 32767)"
    using that b by (auto simp: qualitySearch_def atCeiling_def maxDimension_def)
next
  fix q assume "q \<in> set (take 1 (calls (generateImageWithTargetSize Jimp c)))"
  from first_call [OF this]
  show "img_quality q = 90" "img_width q \<le> Fin 32767" "img_height q \<le> Fin 32767"
    by simp_all
qed

theorem quality_seeded_above_ceiling_witness:
  "reachable (Some paddedEncoder) jpg54
     \<lparr>width = Fin 49152, height = Fin 27648, quality = 90, iteration = 1,
      buffer = Some (replicate 1572864 0), actualSize = Some 1572864\<rparr>
   \<and> isJpeg (format jpg54)
   \<and> quality (ceilingCheck jpg54
        \<lparr>width = Fin 49152, height = Fin 27648, quality = 90, iteration = 1,
         buffer = Some (replicate 1572864 0), actualSize = Some 1572864\<rparr>) = 70
   \<and> qualitySearch jpg54 (ceilingCheck jpg54
        \<lparr>width = Fin 49152, height = Fin 27648, quality = 90, iteration = 1,
         buffer = Some (replicate 1572864 0), actualSize = Some 1572864\<rparr>)"
proof -
  let ?s = "\<lparr>width = Fin 49152, height = Fin 27648, quality = 90, iteration = 1,
      buffer = Some (replicate 1572864 0), actualSize = Some 1572864\<rparr>"
  have f: "isJpeg (format jpg54)" by (simp add: jpg54_def jpg_facts)
  from quality_seeded_above_ceiling [of jpg54 "Some paddedEncoder"]
  have "isJpeg (format jpg54) \<and> (width s > Fin 32767 \<or> height s > Fin 32767)
        \<longrightarrow> qualitySearch jpg54 (ceilingCheck jpg54 s)" for s :: loop_state
    by blast
  from this [of ?s] f
  have q: "qualitySearch jpg54 (ceilingCheck jpg54 ?s)" by simp
  have "quality (ceilingCheck jpg54 ?s) = 70"
    unfolding ceilingCheck_jpg54 by simp
  with reachable_jpg54 f q show ?thesis
    by (intro conjI)
qed

lemma sqrt_2_30: "sqrt 1073741824 = 32768"
  by (rule real_sqrt_unique) simp_all

lemma target_jpg864: "targetSizeBytesOf jpg864 = Fin 905969664"
  by (simp add: targetSizeBytesOf_def mbToBytes_def jpg864_def overflow_def)

lemma estimate_jpg864:
  "estimateInitialDimensions (targetSizeBytesOf jpg864) (format jpg864)
     = Dimensions (Fin 32767) (Fin 18431)"
proof -
  have "estimateInitialDimensions (Fin 905969664) ''jpg'' = Dimensions (Fin 32767) (Fin 18431)"
    by (subst estimate_closed_form)
       (simp_all add: factor_facts overflow_def sqrt_2_30 Let_def)
  then show ?thesis unfolding target_jpg864 by (simp add: jpg864_def)
qed

lemma iterate_jpg864:
  "iterate (Some paddedEncoder) jpg864
     \<lparr>width = Fin 32767, height = Fin 18431, quality = 90, iteration = 0,
      buffer = None, actualSize = None\<rparr>
   = Continue \<lparr>width = Fin 32767, height = Fin 18431, quality = 95, iteration = 1,
        buffer = Some (replicate 1572864 0), actualSize = Some 1572864\<rparr>"
  unfolding iterate_def target_jpg864
  by (simp add: ceilingCheck_def maxDimension_def renderRequest_def
        generateImageWithText_def validateDimensions_def jpg864_def jpg_facts paddedEncoder_def
        getImageSize_def isWithinTolerance_def toleranceOf_def
        atCeiling_def adjustQuality_def Let_def overflow_def)

lemma run_jpg864:
  "generateImageWithTargetSize (Some paddedEncoder) jpg864 =
     \<lparr>calls = [\<lparr>img_width = Fin 32767, img_height = Fin 18431, img_format = ''jpg'',
                img_sizeMB = 864, img_backgroundColor = ''#ffffff'',
                img_textColor = ''#000000'', img_quality = 90\<rparr>],
      warned = True,
      result = Inr \<lparr>out_buffer = Some (replicate 1572864 0), out_width = Fin 32767,
                    out_height = Fin 18431, out_actualSizeBytes = Some 1572864,
                    out_actualSizeMB = Fin 1.5, out_targetSizeMB = 864, out_iterations = 2,
                    out_format = ''jpg'', out_quality = Some 95\<rparr>\<rparr>"
proof -
  have "loop (Some paddedEncoder) jpg864 []
          \<lparr>width = Fin 32767, height = Fin 18431, quality = 90, iteration = 0,
           buffer = None, actualSize = None\<rparr>
        = ([renderRequest jpg864 \<lparr>width = Fin 32767, height = Fin 18431, quality = 90,
                                   iteration = 0, buffer = None, actualSize = None\<rparr>],
           Inr \<lparr>width = Fin 32767, height = Fin 18431, quality = 95, iteration = 1,
                buffer = Some (replicate 1572864 0), actualSize = Some 1572864\<rparr>)"
    apply (subst loop_unfold)
    apply (simp add: iterate_jpg864)
    apply (subst loop_unfold)
    apply (simp add: jpg864_def maxIterationsOf_def ceilingCheck_def maxDimension_def)
    done
  then show ?thesis
    unfolding generateImageWithTargetSize_def estimate_jpg864
    by (simp add: jpg864_def jpg_facts renderRequest_def maxIterationsOf_def
          backgroundColorOf_def textColorOf_def bytesToMB_def overflow_def)
qed

text \<open>
  C8 as stated fails for seed dimensions at the ceiling. An 864 MB JPEG has the estimate
  32767 by 18431 and needs more than 1.5 bytes per pixel, for which the table has 95; the
  first render is made with quality 90.
\<close>

theorem seed_at_estimated_ceiling_counterexample:
  "estimateInitialDimensions (targetSizeBytesOf jpg864) (format jpg864)
     = Dimensions (Fin 32767) (Fin 18431)
   \<and> Fin 1.5 < targetSizeBytesOf jpg864 / (Fin 32767 * Fin 18431)
   \<and> \<not> Fin 2 < targetSizeBytesOf jpg864 / (Fin 32767 * Fin 18431)
   \<and> map img_quality (calls (generateImageWithTargetSize (Some paddedEncoder) jpg864)) = [90]"
  unfolding target_jpg864
  by (simp add: estimate_jpg864 [unfolded target_jpg864] run_jpg864 overflow_def)

subsection \<open>Leaving the loop\<close>

lemma iterate_Continue_cases:
  assumes "iterate Jimp c s = Continue s'"
  shows "\<exists>buf. generateImageWithText Jimp (renderRequest c (ceilingCheck c s)) = Inr buf
           \<and> \<not> isWithinTolerance (Fin (real (length buf))) (targetSizeBytesOf c) (toleranceOf c)
           \<and> buffer s' = Some buf \<and> actualSize s' = Some (length buf)
           \<and> (if atCeiling c (ceilingCheck c s)
               then width s' = width (ceilingCheck c s) \<and> height s' = height (ceilingCheck c s)
               else adjustDimensions (Fin (real (length buf))) (targetSizeBytesOf c)
                      (width (ceilingCheck c s)) (height (ceilingCheck c s))
                    = Dimensions (width s') (height s'))"
proof -
  from assms obtain buf where
    buf: "generateImageWithText Jimp (renderRequest c (ceilingCheck c s)) = Inr buf"
    by (auto simp: iterate_def Let_def split: sum.splits)
  with assms show ?thesis
    by (intro exI [of _ buf])
       (auto simp: iterate_def Let_def getImageSize_def split: if_splits dimensions.splits)
qed

lemma iterate_Break_iteration: "iterate Jimp c s = Break s' \<Longrightarrow> iteration s' = iteration s"
  by (auto simp: iterate_def Let_def split: sum.splits if_splits dimensions.splits)

lemma loop_count:
  assumes "loop Jimp c cs s = (cs', Inr s')" and "length cs = iteration s"
  shows "(if int (iteration s') < maxIterationsOf c
          then length cs' = iteration s' + 1 else length cs' = iteration s')
       \<and> int (iteration s') \<le> max (maxIterationsOf c) (int (iteration s))"
  using assms
proof (induction Jimp c cs s rule: loop.induct)
  case (1 Jimp c cs s)
  show ?case
  proof (cases "int (iteration s) < maxIterationsOf c")
    case False
    with "1.prems" show ?thesis by (auto simp: loop_unfold [of Jimp c cs s])
  next
    case True
    show ?thesis
    proof (cases "iterate Jimp c s")
      case (Continue s1)
      have it: "iteration s1 = iteration s + 1"
        using Continue by (rule iterate_Continue_iteration)
      have "loop Jimp c (cs @ [renderRequest c (ceilingCheck c s)]) s1 = (cs', Inr s')"
        using "1.prems"(1) True Continue by (simp add: loop_unfold [of Jimp c cs s])
      moreover have "length (cs @ [renderRequest c (ceilingCheck c s)]) = iteration s1"
        using "1.prems"(2) it by simp
      ultimately have "(if int (iteration s') < maxIterationsOf c
          then length cs' = iteration s' + 1 else length cs' = iteration s')
       \<and> int (iteration s') \<le> max (maxIterationsOf c) (int (iteration s1))"
        by (rule "1.IH" [OF True Continue])
      with True it show ?thesis by (auto split: if_splits)
    next
      case (Break s1)
      then have "iteration s1 = iteration s" by (rule iterate_Break_iteration)
      with "1.prems" True Break show ?thesis
        by (auto simp: loop_unfold [of Jimp c cs s])
    next
      case (Throw e)
      with "1.prems" True show ?thesis by (simp add: loop_unfold [of Jimp c cs s])
    qed
  qed
qed

lemma loop_exhausted:
  assumes "loop Jimp c cs s = (cs', Inr s')" and "maxIterationsOf c \<le> int (iteration s')"
    and "cs' \<noteq> cs"
  shows "\<exists>buf. generateImageWithText Jimp (last cs') = Inr buf
           \<and> \<not> isWithinTolerance (Fin (real (length buf))) (targetSizeBytesOf c) (toleranceOf c)
           \<and> buffer s' = Some buf \<and> actualSize s' = Some (length buf)
           \<and> (if isJpeg (format c)
                   \<and> (Fin 32767 \<le> img_width (last cs') \<or> Fin 32767 \<le> img_height (last cs'))
               then width s' = img_width (last cs') \<and> height s' = img_height (last cs')
               else adjustDimensions (Fin (real (length buf))) (targetSizeBytesOf c)
                      (img_width (last cs')) (img_height (last cs'))
                    = Dimensions (width s') (height s'))"
  using assms
proof (induction Jimp c cs s rule: loop.induct)
  case (1 Jimp c cs s)
  let ?req = "renderRequest c (ceilingCheck c s)"
  show ?case
  proof (cases "int (iteration s) < maxIterationsOf c")
    case False
    with "1.prems" show ?thesis by (auto simp: loop_unfold [of Jimp c cs s])
  next
    case True
    show ?thesis
    proof (cases "iterate Jimp c s")
      case (Continue s1)
      have rec: "loop Jimp c (cs @ [?req]) s1 = (cs', Inr s')"
        using "1.prems"(1) True Continue by (simp add: loop_unfold [of Jimp c cs s])
      show ?thesis
      proof (cases "int (iteration s1) < maxIterationsOf c")
        case again: True
        with loop_calls [OF rec] have "cs' \<noteq> cs @ [?req]" by auto
        with rec "1.prems"(2) show ?thesis
          by (rule "1.IH" [OF True Continue])
      next
        case last: False
        with rec have fin: "cs' = cs @ [?req]" "s' = s1"
          by (auto simp: loop_unfold [of Jimp c "cs @ [?req]" s1])
        have at: "atCeiling c (ceilingCheck c s)
                  \<longleftrightarrow> isJpeg (format c)
                       \<and> (Fin 32767 \<le> img_width ?req \<or> Fin 32767 \<le> img_height ?req)"
          by (auto simp: atCeiling_def renderRequest_def maxDimension_def)
        have dims: "img_width ?req = width (ceilingCheck c s)"
                   "img_height ?req = height (ceilingCheck c s)"
          by (simp_all add: renderRequest_def)
        from iterate_Continue_cases [OF Continue] show ?thesis
          unfolding fin last_snoc at dims [symmetric] .
      qed
    next
      case (Break s1)
      then have "iteration s1 = iteration s" by (rule iterate_Break_iteration)
      with "1.prems" True Break show ?thesis
        by (auto simp: loop_unfold [of Jimp c cs s])
    next
      case (Throw e)
      with "1.prems" True show ?thesis by (simp add: loop_unfold [of Jimp c cs s])
    qed
  qed
qed

text \<open>
  How a call reports its iterations: the number of renders when the loop was left by
  \<^verbatim>\<open>break\<close>, that number plus one when the budget was used up.
\<close>

lemma iterations_reported:
  assumes "result (generateImageWithTargetSize Jimp c) = Inr out"
  shows "out_iterations out =
           (if warned (generateImageWithTargetSize Jimp c)
            then length (calls (generateImageWithTargetSize Jimp c)) + 1
            else length (calls (generateImageWithTargetSize Jimp c)))
       \<and> int (length (calls (generateImageWithTargetSize Jimp c))) \<le> max 0 (maxIterationsOf c)"
proof (cases "estimateInitialDimensions (targetSizeBytesOf c) (format c)")
  case (Dimensions w h)
  let ?s0 = "\<lparr>width = w, height = h, quality = 90, iteration = 0,
              buffer = None, actualSize = None\<rparr>"
  from assms Dimensions obtain cs s' where l: "loop Jimp c [] ?s0 = (cs, Inr s')"
    and run: "generateImageWithTargetSize Jimp c =
            \<lparr>calls = cs, warned = (maxIterationsOf c \<le> int (iteration s')),
             result = Inr
               \<lparr>out_buffer = buffer s', out_width = width s', out_height = height s',
                out_actualSizeBytes = actualSize s',
                out_actualSizeMB =
                  (case actualSize s' of None \<Rightarrow> NaN | Some n \<Rightarrow> bytesToMB (Fin (real n))),
                out_targetSizeMB = targetSizeMB c, out_iterations = iteration s' + 1,
                out_format = format c,
                out_quality = (if isJpeg (format c) then Some (quality s') else None)\<rparr>\<rparr>"
    by (auto simp: generateImageWithTargetSize_def split: if_splits prod.splits sum.splits)
  from loop_count [OF l] assms show ?thesis
    unfolding run by (auto split: if_splits)
qed

text \<open>
  With Jimp present, an encoder that returns no empty buffer, a finite positive target and
  a supported format, nothing in the loop fails: the call returns an outcome.
\<close>

lemma iterate_no_Throw:
  assumes "inRange (ceilingCheck c s)" and "isFormatSupported (format c)"
  shows "iterate (Some encode) c s \<noteq> Throw e"
proof -
  let ?s1 = "ceilingCheck c s"
  have "\<not> a \<le> Fin 0 \<and> \<not> a > maxDimension" if "Fin 50 \<le> a" "a \<le> maxDimension" for a
    using that by (cases a) (auto simp: maxDimension_def less_eq_number_def)
  then have v: "validateDimensions (img_width (renderRequest c ?s1))
             (img_height (renderRequest c ?s1)) = Inr ()"
    using assms(1)
    by (simp add: validateDimensions_def renderRequest_def inRange_def)
  have g: "generateImageWithText (Some encode) (renderRequest c ?s1)
             = Inr (encode (renderRequest c ?s1))"
    using assms(2) by (simp add: generateImageWithText_def v) (simp add: renderRequest_def)
  show ?thesis
    by (simp add: iterate_def g Let_def split: dimensions.splits)
qed

lemma loop_returns:
  assumes "scaledFromRange s" and "isFormatSupported (format c)"
    and "neverEmpty Jimp" and "Jimp = Some encode"
    and "targetSizeBytesOf c = Fin T" and "0 < T" and "T < overflow"
  shows "\<exists>cs' s'. loop Jimp c cs s = (cs', Inr s')"
  using assms
proof (induction Jimp c cs s rule: loop.induct)
  case (1 Jimp c cs s)
  have in1: "intRange (ceilingCheck c s)"
    using "1.prems"(1) by (rule ceilingCheck_inRange)
  show ?case
  proof (cases "int (iteration s) < maxIterationsOf c")
    case False
    then show ?thesis by (simp add: loop_unfold [of Jimp c cs s])
  next
    case True
    show ?thesis
    proof (cases "iterate Jimp c s")
      case (Continue s1)
      have "scaledFromRange s1"
        using Continue in1 "1.prems"(3,5-7) by (rule iterate_Continue_scaled)
      from "1.IH" [OF True Continue this "1.prems"(2-7)] True Continue show ?thesis
        by (simp add: loop_unfold [of Jimp c cs s])
    next
      case (Break s1)
      with True show ?thesis by (simp add: loop_unfold [of Jimp c cs s])
    next
      case (Throw e)
      with iterate_no_Throw [OF intRange_inRange [OF in1] "1.prems"(2), of encode e]
        "1.prems"(4) show ?thesis
        by simp
    qed
  qed
qed

lemma run_returns:
  assumes "0 < targetSizeMB c" and "isFormatSupported (format c)"
    and "neverEmpty (Some encode)" and "finiteTarget c"
  shows "\<exists>out. result (generateImageWithTargetSize (Some encode) c) = Inr out"
proof -
  from targetSizeBytesOf_finite [OF assms(1,4)] obtain T where
    T: "targetSizeBytesOf c = Fin T" "0 < T" "T < overflow" by blast
  obtain w h where
    e: "estimateInitialDimensions (targetSizeBytesOf c) (format c) = Dimensions w h"
    by (cases "estimateInitialDimensions (targetSizeBytesOf c) (format c)")
  let ?s0 = "\<lparr>width = w, height = h, quality = 90, iteration = 0,
              buffer = None, actualSize = None\<rparr>"
  have "scaledFromRange ?s0"
    using e T assms(2)
    by (intro intRange_scaledFromRange initial_intRange [of T "format c"]) simp_all
  from loop_returns [OF this assms(2,3) refl T, of "[]"]
  obtain cs' s' where "loop (Some encode) c [] ?s0 = (cs', Inr s')" by blast
  with assms(1,2) e show ?thesis
    by (simp add: generateImageWithTargetSize_def)
qed

text \<open>
  C4 at a failing input. With \<open>maxIterations = 1\<close> and a render that misses the tolerance
  there is exactly one render, the budget is used up, an outcome is returned, and it
  reports \<open>iterations = 2\<close>: line 460 adds one to a counter that the last pass through the
  loop has already incremented.
\<close>

theorem single_iteration_budget_reports_two:
  "maxIterationsOf jpg54 = 1
   \<and> length (calls (generateImageWithTargetSize (Some paddedEncoder) jpg54)) = 1
   \<and> warned (generateImageWithTargetSize (Some paddedEncoder) jpg54)
   \<and> map_sum id out_iterations (result (generateImageWithTargetSize (Some paddedEncoder) jpg54))
       = Inr 2"
  by (simp add: run_jpg54) (simp add: jpg54_def maxIterationsOf_def)

text \<open>
  C10. When the loop has used up its budget (the call warns) after at least one render, and
  the last iteration took the dimension branch (the format is not jpg/jpeg, or neither
  rendered dimension was at the ceiling), then the buffer and the actual size returned are
  those of the last render, which missed the tolerance, and the width and height returned
  are the result of \<^verbatim>\<open>adjustDimensions\<close> on that render: dimensions that were never
  rendered. They can differ from the rendered ones and exceed the ceiling, as in the run
  of \<open>jpg54\<close>: rendered at 8192 by 4608, returned as 49152 by 27648.
\<close>

theorem exhausted_run_returns_adjusted_dimensions:
  "(\<forall>out.
      result (generateImageWithTargetSize Jimp c) = Inr out
      \<and> warned (generateImageWithTargetSize Jimp c)
      \<and> calls (generateImageWithTargetSize Jimp c) \<noteq> []
      \<and> \<not> (isJpeg (format c)
            \<and> (Fin 32767 \<le> img_width (last (calls (generateImageWithTargetSize Jimp c)))
                \<or> Fin 32767 \<le> img_height (last (calls (generateImageWithTargetSize Jimp c)))))
      \<longrightarrow>
      (\<exists>buf.
          generateImageWithText Jimp (last (calls (generateImageWithTargetSize Jimp c))) = Inr buf
        \<and> \<not> isWithinTolerance (Fin (real (length buf))) (targetSizeBytesOf c) (toleranceOf c)
        \<and> out_buffer out = Some buf \<and> out_actualSizeBytes out = Some (length buf)
        \<and> adjustDimensions (Fin (real (length buf))) (targetSizeBytesOf c)
             (img_width (last (calls (generateImageWithTargetSize Jimp c))))
             (img_height (last (calls (generateImageWithTargetSize Jimp c))))
           = Dimensions (out_width out) (out_height out)))
   \<and> (\<exists>Jimp' c' out'.
         result (generateImageWithTargetSize Jimp' c') = Inr out'
       \<and> warned (generateImageWithTargetSize Jimp' c')
       \<and> out_width out' \<noteq> img_width (last (calls (generateImageWithTargetSize Jimp' c')))
       \<and> out_height out' \<noteq> img_height (last (calls (generateImageWithTargetSize Jimp' c')))
       \<and> Fin 32767 < out_width out')"
proof (intro conjI allI impI)
  let ?run = "generateImageWithTargetSize Jimp c"
  fix out
  assume a: "result ?run = Inr out \<and> warned ?run \<and> calls ?run \<noteq> []
      \<and> \<not> (isJpeg (format c)
            \<and> (Fin 32767 \<le> img_width (last (calls ?run)) \<or> Fin 32767 \<le> img_height (last (calls ?run))))"
  then obtain w h where
    e: "estimateInitialDimensions (targetSizeBytesOf c) (format c) = Dimensions w h"
    by (cases "estimateInitialDimensions (targetSizeBytesOf c) (format c)")
       (auto simp: generateImageWithTargetSize_def split: if_splits)
  let ?s0 = "\<lparr>width = w, height = h, quality = 90, iteration = 0,
              buffer = None, actualSize = None\<rparr>"
  from a e obtain cs s' where l: "loop Jimp c [] ?s0 = (cs, Inr s')"
    and run: "calls ?run = cs" "warned ?run \<longleftrightarrow> maxIterationsOf c \<le> int (iteration s')"
      "out_buffer out = buffer s'" "out_actualSizeBytes out = actualSize s'"
      "out_width out = width s'" "out_height out = height s'"
    by (auto simp: generateImageWithTargetSize_def split: if_splits prod.splits sum.splits)
  from a run have "maxIterationsOf c \<le> int (iteration s')" and "cs \<noteq> []"
    by simp_all
  from loop_exhausted [OF l this] a
  show "\<exists>buf.
          generateImageWithText Jimp (last (calls ?run)) = Inr buf
        \<and> \<not> isWithinTolerance (Fin (real (length buf))) (targetSizeBytesOf c) (toleranceOf c)
        \<and> out_buffer out = Some buf \<and> out_actualSizeBytes out = Some (length buf)
        \<and> adjustDimensions (Fin (real (length buf))) (targetSizeBytesOf c)
             (img_width (last (calls ?run))) (img_height (last (calls ?run)))
           = Dimensions (out_width out) (out_height out)"
    unfolding run by auto
next
  show "\<exists>Jimp' c' out'.
         result (generateImageWithTargetSize Jimp' c') = Inr out'
       \<and> warned (generateImageWithTargetSize Jimp' c')
       \<and> out_width out' \<noteq> img_width (last (calls (generateImageWithTargetSize Jimp' c')))
       \<and> out_height out' \<noteq> img_height (last (calls (generateImageWithTargetSize Jimp' c')))
       \<and> Fin 32767 < out_width out'"
    by (intro exI [of _ "Some paddedEncoder"] exI [of _ jpg54]) (simp add: run_jpg54)
qed

theorem exhausted_run_returns_adjusted_dimensions_witness:
  "warned (generateImageWithTargetSize (Some paddedEncoder) jpg54)
   \<and> map img_width (calls (generateImageWithTargetSize (Some paddedEncoder) jpg54)) = [Fin 8192]
   \<and> map img_height (calls (generateImageWithTargetSize (Some paddedEncoder) jpg54)) = [Fin 4608]
   \<and> map_sum id out_width (result (generateImageWithTargetSize (Some paddedEncoder) jpg54))
       = Inr (Fin 49152)
   \<and> map_sum id out_height (result (generateImageWithTargetSize (Some paddedEncoder) jpg54))
       = Inr (Fin 27648)
   \<and> adjustDimensions (Fin 1572864) (targetSizeBytesOf jpg54) (Fin 8192) (Fin 4608)
       = Dimensions (Fin 49152) (Fin 27648)"
proof -
  let ?run = "generateImageWithTargetSize (Some paddedEncoder) jpg54"
  let ?out = "\<lparr>out_buffer = Some (replicate 1572864 0), out_width = Fin 49152,
                out_height = Fin 27648, out_actualSizeBytes = Some 1572864,
                out_actualSizeMB = Fin 1.5, out_targetSizeMB = 54, out_iterations = 2,
                out_format = ''jpg'', out_quality = Some 90\<rparr>"
  have pre: "result ?run = Inr ?out \<and> warned ?run \<and> calls ?run \<noteq> []
      \<and> \<not> (isJpeg (format jpg54)
            \<and> (Fin 32767 \<le> img_width (last (calls ?run)) \<or> Fin 32767 \<le> img_height (last (calls ?run))))"
    by (simp add: run_jpg54)
  from exhausted_run_returns_adjusted_dimensions [of "Some paddedEncoder" jpg54,
         THEN conjunct1, THEN spec, of ?out, THEN mp, OF pre]
  have "adjustDimensions (Fin 1572864) (targetSizeBytesOf jpg54) (Fin 8192) (Fin 4608)
               = Dimensions (Fin 49152) (Fin 27648)"
    by (auto simp: run_jpg54)
  then show ?thesis
    by (simp add: run_jpg54)
qed

subsection \<open>The estimator against its reference definition\<close>

lemma referenceEstimate_closed_form:
  assumes "0 < T"
  shows "referenceEstimate T f =
           (let w = sqrt (T / factorOf f * (16 / 9))
            in if w > 32767 then (32767, 18431)
               else (max (round w) 100, max (round (9 * w / 16)) 56))"
proof -
  define P where "P = T / factorOf f"
  define w where "w = sqrt (P * (16 / 9))"
  have fpos: "0 < factorOf f" by (simp add: factorOf_def)
  have Ppos: "0 < P" using assms fpos by (simp add: P_def)
  have wpos: "0 < w" using Ppos by (simp add: w_def)
  have "w * w = P * (16 / 9)" using Ppos by (simp add: w_def)
  then have "P = (9 * w / 16) * w" by simp
  then have h: "P / w = 9 * w / 16" using wpos by (simp add: field_simps)
  have fac: "(if toLowerCase f = ''jpg'' \<or> toLowerCase f = ''jpeg'' then 1.5
              else if toLowerCase f = ''png'' then 1.2 else 1.5) = factorOf f"
    by (simp add: factorOf_def)
  have "referenceEstimate T f =
      (let (w', h') =
            (if w > 32767 \<or> P / w > 32767
             then let k = 32767 / max w (P / w) in (min (w * k) 32767, min (P / w * k) 32767)
             else (w, P / w))
       in (max (round w') 100, max (round h') 56))"
    unfolding referenceEstimate_def Let_def fac w_def P_def by (rule refl)
  also have "\<dots> =
      (let (w', h') =
            (if w > 32767 \<or> 9 * w / 16 > 32767
             then let k = 32767 / max w (9 * w / 16)
                  in (min (w * k) 32767, min (9 * w / 16 * k) 32767)
             else (w, 9 * w / 16))
       in (max (round w') 100, max (round h') 56))"
    by (simp only: h)
  also have "\<dots> = (if w > 32767 then (32767, 18431)
               else (max (round w) 100, max (round (9 * w / 16)) 56))"
  proof -
    have m: "max w (9 * w / 16) = w" using wpos by (simp add: max_def)
    have k: "w * (32767 / w) = 32767" "9 * w / 16 * (32767 / w) = 294903 / 16"
      using wpos by (simp_all add: field_simps)
    show ?thesis
      using wpos by (simp add: Let_def m k round_18431)
  qed
  finally show ?thesis
    unfolding Let_def w_def P_def .
qed

text \<open>
  Where the property read finds a number or nothing, the estimator is the reference
  definition.
\<close>

lemma estimate_refines_reference:
  assumes "0 < T" and "T < overflow" and "toLowerCase f \<notin> set objectPrototypeKeys"
  shows "estimateInitialDimensions (Fin T) f
           = Dimensions (Fin (real_of_int (fst (referenceEstimate T f))))
                        (Fin (real_of_int (snd (referenceEstimate T f))))"
proof -
  have "compressionFactors (toLowerCase f) \<noteq> Inherited"
    using assms(3) by (simp add: compressionFactors_def)
  from estimate_closed_form [OF assms(1,2) this]
    referenceEstimate_closed_form [OF assms(1), of f]
  show ?thesis by (simp add: Let_def)
qed

text \<open>
  Lower-casing leaves no capital letter, so of the property names of
  \<^verbatim>\<open>Object.prototype\<close> only \<^verbatim>\<open>constructor\<close> and \<^verbatim>\<open>__proto__\<close> can be read.
\<close>

lemma lowerChar_not_capital:
  "\<not> (65 \<le> (of_char (lowerChar c) :: nat) \<and> (of_char (lowerChar c) :: nat) \<le> 90)"
proof -
  have "(of_char c :: nat) < 256" by simp
  then show ?thesis
    by (auto simp: lowerChar_def Let_def)
qed

lemma toLowerCase_no_capital:
  assumes "x \<in> set (toLowerCase f)"
  shows "\<not> (65 \<le> (of_char x :: nat) \<and> (of_char x :: nat) \<le> 90)"
  using assms lowerChar_not_capital by (auto simp: toLowerCase_def)

lemma inherited_keys_reached:
  "compressionFactors (toLowerCase f) = Inherited \<longleftrightarrow>
   toLowerCase f = ''constructor'' \<or> toLowerCase f = ''__proto__''"
proof -
  have no: "toLowerCase f \<noteq> k" if "x \<in> set k" "65 \<le> (of_char x :: nat)" "(of_char x :: nat) \<le> 90"
    for k x
    using toLowerCase_no_capital [of x f] that by auto
  have "toLowerCase f \<noteq> ''__defineGetter__''" by (rule no [of "CHR ''G''"]) simp_all
  moreover have "toLowerCase f \<noteq> ''__defineSetter__''" by (rule no [of "CHR ''S''"]) simp_all
  moreover have "toLowerCase f \<noteq> ''hasOwnProperty''" by (rule no [of "CHR ''O''"]) simp_all
  moreover have "toLowerCase f \<noteq> ''__lookupGetter__''" by (rule no [of "CHR ''G''"]) simp_all
  moreover have "toLowerCase f \<noteq> ''__lookupSetter__''" by (rule no [of "CHR ''S''"]) simp_all
  moreover have "toLowerCase f \<noteq> ''isPrototypeOf''" by (rule no [of "CHR ''P''"]) simp_all
  moreover have "toLowerCase f \<noteq> ''propertyIsEnumerable''" by (rule no [of "CHR ''I''"]) simp_all
  moreover have "toLowerCase f \<noteq> ''toString''" by (rule no [of "CHR ''S''"]) simp_all
  moreover have "toLowerCase f \<noteq> ''valueOf''" by (rule no [of "CHR ''O''"]) simp_all
  moreover have "toLowerCase f \<noteq> ''toLocaleString''" by (rule no [of "CHR ''L''"]) simp_all
  ultimately show ?thesis
    by (auto simp: compressionFactors_def objectPrototypeKeys_def)
qed

lemma estimate_refines_reference_unless_inherited:
  assumes "0 < T" and "T < overflow"
    and "toLowerCase f \<noteq> ''constructor''" and "toLowerCase f \<noteq> ''__proto__''"
  shows "estimateInitialDimensions (Fin T) f
           = Dimensions (Fin (real_of_int (fst (referenceEstimate T f))))
                        (Fin (real_of_int (snd (referenceEstimate T f))))"
proof -
  have "compressionFactors (toLowerCase f) \<noteq> Inherited"
    using assms(3,4) by (simp add: inherited_keys_reached)
  from estimate_closed_form [OF assms(1,2) this]
    referenceEstimate_closed_form [OF assms(1), of f]
  show ?thesis by (simp add: Let_def)
qed

text \<open>
  C5 at a failing input. For the format \<^verbatim>\<open>"constructor"\<close> the property read
  \<^verbatim>\<open>compressionFactors["constructor"]\<close> finds \<^verbatim>\<open>Object.prototype.constructor\<close>, a function
  and so truthy: the fallback 1.5 is not taken, the division by the function is
  \<^verbatim>\<open>NaN\<close>, and the estimator returns \<^verbatim>\<open>{ width: NaN, height: NaN }\<close>, where the reference
  definition has the factor 1.5 and, for 56623104 bytes, 8192 by 4608.
\<close>

theorem estimate_of_inherited_key:
  "estimateInitialDimensions (Fin 56623104) ''constructor'' = Dimensions NaN NaN
   \<and> referenceEstimate 56623104 ''constructor'' = (8192, 4608)"
proof -
  have l: "toLowerCase ''constructor'' = ''constructor''"
    by (simp add: toLowerCase_def lowerChar_def)
  have "estimateInitialDimensions (Fin 56623104) ''constructor'' = Dimensions NaN NaN"
    by (simp add: estimateInitialDimensions_def l compressionFactors_def objectPrototypeKeys_def
          factorOr_def Let_def maxDimension_def)
  moreover have "referenceEstimate 56623104 ''constructor'' = (8192, 4608)"
    by (simp add: referenceEstimate_def l Let_def sqrt_2_26)
  ultimately show ?thesis ..
qed

subsection \<open>JPEG against PNG\<close>

lemma round_le_18431: "(y::real) \<le> 294903 / 16 \<Longrightarrow> round y \<le> 18431"
  using round_mono [of y "294903 / 16"] by (simp add: round_18431)

text \<open>
  The two estimates compared. In the exact arithmetic of the model the estimate for png
  leaves the floor at 102152/15 bytes (6810.13...) and the estimate for jpg reaches the
  ceiling at 115953500403/128 bytes (905886721.898...).
\<close>

lemma png_against_jpg:
  assumes "0 < T" and "T < overflow"
  shows "\<exists>wj hj wp hp :: int.
           estimateInitialDimensions (Fin T) ''jpg''
             = Dimensions (Fin (real_of_int wj)) (Fin (real_of_int hj))
         \<and> estimateInitialDimensions (Fin T) ''png''
             = Dimensions (Fin (real_of_int wp)) (Fin (real_of_int hp))
         \<and> 0 < hj \<and> 0 < wj \<and> wj \<le> wp \<and> hj \<le> hp
         \<and> (102152 / 15 \<le> T \<and> T < 115953500403 / 128 \<longrightarrow> wj < wp \<or> hj < hp)
         \<and> (T < 102152 / 15 \<longrightarrow> wj = 100 \<and> hj = 56 \<and> wp = 100 \<and> hp = 56)
         \<and> (115953500403 / 128 \<le> T \<longrightarrow> wj = 32767 \<and> hj = 18431 \<and> wp = 32767 \<and> hp = 18431)"
proof -
  define a where "a = sqrt (T * (32 / 27))"
  define b where "b = sqrt (T * (40 / 27))"
  have ab: "a \<le> b" unfolding a_def b_def using assms(1) by (intro real_sqrt_le_mono) simp
  have apos: "0 < a" unfolding a_def using assms(1) by simp
  have aj: "sqrt (T / factorOf ''jpg'' * (16 / 9)) = a"
    unfolding a_def factor_facts by (rule arg_cong [where f = sqrt]) simp
  have bp: "sqrt (T / factorOf ''png'' * (16 / 9)) = b"
    unfolding b_def factor_facts by (rule arg_cong [where f = sqrt]) simp
  have ej: "estimateInitialDimensions (Fin T) ''jpg'' =
              (if a > 32767 then Dimensions (Fin 32767) (Fin 18431)
               else Dimensions (Fin (real_of_int (max (round a) 100)))
                               (Fin (real_of_int (max (round (9 * a / 16)) 56))))"
    unfolding estimate_closed_form [OF assms factor_facts(3)] Let_def aj by (rule refl)
  have ep: "estimateInitialDimensions (Fin T) ''png'' =
              (if b > 32767 then Dimensions (Fin 32767) (Fin 18431)
               else Dimensions (Fin (real_of_int (max (round b) 100)))
                               (Fin (real_of_int (max (round (9 * b / 16)) 56))))"
    unfolding estimate_closed_form [OF assms factor_facts(4)] Let_def bp by (rule refl)
  define W where "W x = (if x > 32767 then 32767 else max (round x) 100)" for x :: real
  define H where "H x = (if x > 32767 then 18431 else max (round (9 * x / 16)) 56)" for x :: real
  have ej': "estimateInitialDimensions (Fin T) ''jpg''
               = Dimensions (Fin (real_of_int (W a))) (Fin (real_of_int (H a)))"
    unfolding ej W_def H_def by simp
  have ep': "estimateInitialDimensions (Fin T) ''png''
               = Dimensions (Fin (real_of_int (W b))) (Fin (real_of_int (H b)))"
    unfolding ep W_def H_def by simp
  have Wmono: "W x \<le> W y" if "x \<le> y" for x y
  proof -
    have "round x \<le> round y" using that by (rule round_mono)
    moreover have "round x \<le> 32767" if "x \<le> 32767" using that by (rule round_le_max)
    ultimately show ?thesis using that unfolding W_def by (auto simp: max_def)
  qed
  have Hmono: "H x \<le> H y" if "x \<le> y" for x y
  proof -
    have "round (9 * x / 16) \<le> round (9 * y / 16)" using that by (intro round_mono) simp
    moreover have "round (9 * x / 16) \<le> 18431" if "x \<le> 32767"
      using that by (intro round_le_18431) simp
    ultimately show ?thesis using that unfolding H_def by (auto simp: max_def)
  qed
  have Wpos: "0 < W x" and Hpos: "0 < H x" for x
    unfolding W_def H_def by (auto simp: max_def)
  have sqa: "a * a = T * (32 / 27)" unfolding a_def using assms(1) by simp
  have r1: "sqrt (4294574089 / 4) = 65533 / 2"
    by (rule real_sqrt_unique) (simp_all add: power2_eq_square)
  have r2: "sqrt (817216 / 81) = 904 / 9"
    by (rule real_sqrt_unique) (simp_all add: power2_eq_square)
  have strict: "W a < W b \<or> H a < H b"
    if T: "102152 / 15 \<le> T \<and> T < 115953500403 / 128"
  proof -
    have "a < sqrt (4294574089 / 4)"
      unfolding a_def using T by (intro real_sqrt_less_mono) simp
    then have aU: "a < 65533 / 2" by (simp add: r1)
    have "sqrt (817216 / 81) \<le> b"
      unfolding b_def using T by (intro real_sqrt_le_mono) simp
    then have bL: "904 / 9 \<le> b" by (simp add: r2)
    show ?thesis
    proof (cases "9 * a / 16 < 113 / 2")
      case True
      then have "round (9 * a / 16) \<le> 56"
        unfolding round_def by (simp add: floor_le_iff) 
      then have "H a = 56" using aU unfolding H_def by simp
      moreover have "57 \<le> H b"
      proof -
        have "round (113 / 2 :: real) \<le> round (9 * b / 16)"
          using bL by (intro round_mono) simp
        moreover have "round (113 / 2 :: real) = 57" by (simp add: round_def)
        ultimately show ?thesis unfolding H_def by simp
      qed
      ultimately show ?thesis by simp
    next
      case False
      then have aL: "904 / 9 \<le> a" by simp
      have "100 * a \<le> a * a" using aL apos by (intro mult_right_mono) simp_all
      then have "(a + 1)\<^sup>2 \<le> T * (40 / 27)"
        using sqa aL by (simp add: power2_eq_square algebra_simps)
      then have a1: "a + 1 \<le> b" unfolding b_def by (rule real_le_rsqrt)
      have "round (100 :: real) \<le> round a" using aL by (intro round_mono) simp
      then have ra: "100 \<le> round a" by simp
      have "round a < 32767"
        using aU unfolding round_def by (simp add: floor_less_iff)
      then have Wa: "W a = round a" "round a \<le> 32766"
        using ra aU unfolding W_def by simp_all
      have "a + 1 + 1 / 2 = (a + 1 / 2) + of_int 1" by simp
      then have "round a + 1 = round (a + 1)" unfolding round_def by (simp only: floor_add_int)
      also have "\<dots> \<le> round b" using a1 by (rule round_mono)
      finally have rb: "round a < round b" by simp
      have "W a < W b"
      proof (cases "b > 32767")
        case True
        then show ?thesis using Wa unfolding W_def by simp
      next
        case False
        then show ?thesis using Wa rb unfolding W_def by simp
      qed
      then show ?thesis ..
    qed
  qed
  have low: "W a = 100 \<and> H a = 56 \<and> W b = 100 \<and> H b = 56" if T: "T < 102152 / 15"
  proof -
    have "b < sqrt (817216 / 81)"
      unfolding b_def using T by (intro real_sqrt_less_mono) simp
    then have bU: "b < 904 / 9" by (simp add: r2)
    have "round x \<le> 100 \<and> round (9 * x / 16) \<le> 56 \<and> \<not> x > 32767" if "x < 904 / 9" for x :: real
      using that unfolding round_def by (simp add: floor_le_iff)
    from this [OF bU] this [of a] ab bU show ?thesis
      unfolding W_def H_def by simp
  qed
  have high: "W a = 32767 \<and> H a = 18431 \<and> W b = 32767 \<and> H b = 18431"
    if T: "115953500403 / 128 \<le> T"
  proof -
    have "sqrt (4294574089 / 4) \<le> a"
      unfolding a_def using T by (intro real_sqrt_le_mono) simp
    then have aL: "65533 / 2 \<le> a" by (simp add: r1)
    have "W x = 32767 \<and> H x = 18431" if x: "65533 / 2 \<le> x" for x :: real
    proof (cases "x > 32767")
      case True
      then show ?thesis unfolding W_def H_def by simp
    next
      case False
      have "round (65533 / 2 :: real) \<le> round x" using x by (rule round_mono)
      moreover have "round (65533 / 2 :: real) = 32767" by (simp add: round_def)
      moreover have "round x \<le> 32767" using False by (intro round_le_max) simp
      moreover have "round (589797 / 32 :: real) \<le> round (9 * x / 16)"
        using x by (intro round_mono) simp
      moreover have "round (589797 / 32 :: real) = 18431" by (simp add: round_def)
      moreover have "round (9 * x / 16) \<le> 18431"
        using False by (intro round_le_18431) simp
      ultimately show ?thesis using False unfolding W_def H_def by simp
    qed
    from this [OF aL] this [of b] aL ab show ?thesis by simp
  qed
  show ?thesis
    unfolding ej' ep'
    using Wmono [OF ab] Hmono [OF ab] Wpos [of a] Hpos [of a] strict low high
    by (intro exI [of _ "W a"] exI [of _ "H a"] exI [of _ "W b"] exI [of _ "H b"]) simp
qed

text \<open>
  C9, as amended. For every finite positive target the pixel area of the estimate for png
  is at least that of the estimate for jpg; it is strictly larger for every target from
  6811 to 905886721 bytes, and the two estimates are equal for every target of at most
  6810 bytes (both are the floor of 100 by 56) and of at least 905886722 bytes (both are
  32767 by 18431; 32767 by 32767 for the target \<^verbatim>\<open>Infinity\<close>).
\<close>

theorem png_area_not_below_jpg_area:
  assumes "0 < T" and "T < overflow"
  shows "(\<exists>wj hj wp hp :: int.
           estimateInitialDimensions (Fin T) ''jpg''
             = Dimensions (Fin (real_of_int wj)) (Fin (real_of_int hj))
         \<and> estimateInitialDimensions (Fin T) ''png''
             = Dimensions (Fin (real_of_int wp)) (Fin (real_of_int hp))
         \<and> wj * hj \<le> wp * hp
         \<and> (6811 \<le> T \<and> T \<le> 905886721 \<longrightarrow> wj * hj < wp * hp)
         \<and> (T \<le> 6810 \<longrightarrow> wj = 100 \<and> hj = 56 \<and> wp = 100 \<and> hp = 56)
         \<and> (905886722 \<le> T \<longrightarrow> wj = 32767 \<and> hj = 18431 \<and> wp = 32767 \<and> hp = 18431))
       \<and> estimateInitialDimensions PosInf ''jpg'' = Dimensions (Fin 32767) (Fin 32767)
       \<and> estimateInitialDimensions PosInf ''png'' = Dimensions (Fin 32767) (Fin 32767)"
proof -
  from png_against_jpg [OF assms] obtain wj hj wp hp :: int where
    e: "estimateInitialDimensions (Fin T) ''jpg''
          = Dimensions (Fin (real_of_int wj)) (Fin (real_of_int hj))"
       "estimateInitialDimensions (Fin T) ''png''
          = Dimensions (Fin (real_of_int wp)) (Fin (real_of_int hp))"
    and o: "0 < hj" "0 < wj" "wj \<le> wp" "hj \<le> hp"
    and s: "102152 / 15 \<le> T \<and> T < 115953500403 / 128 \<longrightarrow> wj < wp \<or> hj < hp"
    and l: "T < 102152 / 15 \<longrightarrow> wj = 100 \<and> hj = 56 \<and> wp = 100 \<and> hp = 56"
    and u: "115953500403 / 128 \<le> T \<longrightarrow> wj = 32767 \<and> hj = 18431 \<and> wp = 32767 \<and> hp = 18431"
    by blast
  have le: "wj * hj \<le> wp * hp"
    using o by (intro mult_mono) simp_all
  have w: "wj * hj < wp * hp" if "wj < wp"
  proof -
    have "wj * hj < wp * hj" using that o(1) by simp
    also have "\<dots> \<le> wp * hp" using o by (intro mult_left_mono) simp_all
    finally show ?thesis .
  qed
  have h: "wj * hj < wp * hp" if "hj < hp"
  proof -
    have "wj * hj < wj * hp" using that o(2) by simp
    also have "\<dots> \<le> wp * hp" using o by (intro mult_right_mono) simp_all
    finally show ?thesis .
  qed
  have strict: "wj * hj < wp * hp" if "6811 \<le> T \<and> T \<le> 905886721"
  proof -
    from that have "102152 / 15 \<le> T \<and> T < 115953500403 / 128" by simp
    with s w h show ?thesis by blast
  qed
  have low: "wj = 100 \<and> hj = 56 \<and> wp = 100 \<and> hp = 56" if "T \<le> 6810"
    using that l by simp
  have high: "wj = 32767 \<and> hj = 18431 \<and> wp = 32767 \<and> hp = 18431" if "905886722 \<le> T"
    using that u by simp
  from e le strict low high have "\<exists>wj hj wp hp :: int.
           estimateInitialDimensions (Fin T) ''jpg''
             = Dimensions (Fin (real_of_int wj)) (Fin (real_of_int hj))
         \<and> estimateInitialDimensions (Fin T) ''png''
             = Dimensions (Fin (real_of_int wp)) (Fin (real_of_int hp))
         \<and> wj * hj \<le> wp * hp
         \<and> (6811 \<le> T \<and> T \<le> 905886721 \<longrightarrow> wj * hj < wp * hp)
         \<and> (T \<le> 6810 \<longrightarrow> wj = 100 \<and> hj = 56 \<and> wp = 100 \<and> hp = 56)
         \<and> (905886722 \<le> T \<longrightarrow> wj = 32767 \<and> hj = 18431 \<and> wp = 32767 \<and> hp = 18431)"
    by blast
  then show ?thesis
    using estimate_overflow [OF factor_facts(3)] estimate_overflow [OF factor_facts(4)]
    by simp
qed

theorem png_area_not_below_jpg_area_witness:
  "(0::real) < 8000 \<and> 8000 < overflow
   \<and> (\<exists>wj hj wp hp :: int.
           estimateInitialDimensions (Fin 8000) ''jpg''
             = Dimensions (Fin (real_of_int wj)) (Fin (real_of_int hj))
         \<and> estimateInitialDimensions (Fin 8000) ''png''
             = Dimensions (Fin (real_of_int wp)) (Fin (real_of_int hp))
         \<and> wj * hj < wp * hp)"
proof -
  have o: "(8000::real) < overflow" by (simp add: overflow_def)
  from png_area_not_below_jpg_area [of 8000, OF _ o] o show ?thesis by auto
qed

text \<open>
  C9 as stated fails at both ends: for 6810 bytes both estimates are the floor, for
  905886722 bytes both are the ceiling, and the areas are equal.
\<close>

theorem png_area_counterexample:
  "estimateInitialDimensions (Fin 6810) ''jpg'' = Dimensions (Fin 100) (Fin 56)
   \<and> estimateInitialDimensions (Fin 6810) ''png'' = Dimensions (Fin 100) (Fin 56)
   \<and> estimateInitialDimensions (Fin 905886722) ''jpg'' = Dimensions (Fin 32767) (Fin 18431)
   \<and> estimateInitialDimensions (Fin 905886722) ''png'' = Dimensions (Fin 32767) (Fin 18431)"
proof -
  have o: "(6810::real) < overflow" "(905886722::real) < overflow"
    by (simp_all add: overflow_def)
  from png_against_jpg [of 6810, OF _ o(1)] png_against_jpg [of 905886722, OF _ o(2)]
  show ?thesis by auto
qed

end
